theory Spec2Isabelle
  imports Main
begin

section \<open>The snake game of \<^verbatim>\<open>src/snake.py\<close>\<close>

text \<open>
  The game logic of \<^verbatim>\<open>snake.py\<close> (classes \<^verbatim>\<open>Snake\<close>, \<^verbatim>\<open>Apple\<close> and \<^verbatim>\<open>Game\<close>) as
  HOL functions. Python integers are \<open>int\<close>, a tuple \<^verbatim>\<open>(x, y)\<close> is a pair, a list is a
  list. A method that assigns to \<^verbatim>\<open>self\<close> takes the object and returns the updated one.
  An exception is the value \<open>Inl e\<close>; a loop that may run forever returns \<open>None\<close> when
  it does. Drawing, the window, the clock and the font do not influence the game state and
  are left out.
\<close>

subsection \<open>Constants\<close>

definition WINDOW_WIDTH :: int where "WINDOW_WIDTH = 640"
definition WINDOW_HEIGHT :: int where "WINDOW_HEIGHT = 480"
definition CELL_SIZE :: int where "CELL_SIZE = 20"

type_synonym cell = "int \<times> int"
type_synonym heading = "int \<times> int"

definition UP :: heading where "UP = (0, -1)"
definition DOWN :: heading where "DOWN = (0, 1)"
definition LEFT :: heading where "LEFT = (-1, 0)"
definition RIGHT :: heading where "RIGHT = (1, 0)"

subsection \<open>Exceptions and the random source\<close>

text \<open>The only exception the game logic can raise: \<^verbatim>\<open>self.body[0]\<close> on an empty list.\<close>

datatype error = IndexError

text \<open>
  The state of Python's \<^verbatim>\<open>random\<close> module is an infinite sequence of raw draws. The library
  call \<^verbatim>\<open>random.randint(a, b)\<close> consumes one draw and returns some \<open>N\<close> with
  \<open>a \<le> N \<le> b\<close>; which one is decided by the draw. (The game only calls it with
  \<open>a = 0 \<le> b\<close>.)
\<close>

type_synonym rng = "nat \<Rightarrow> nat"

definition randint :: "int \<Rightarrow> int \<Rightarrow> rng \<Rightarrow> int \<times> rng" where
  "randint a b r = (a + int (r 0 mod nat (b - a + 1)), \<lambda>n. r (Suc n))"

subsection \<open>Class \<^verbatim>\<open>Snake\<close>\<close>

record snake =
  body :: "cell list"
  direction :: heading
  grow :: bool

text \<open>\<^verbatim>\<open>Snake.reset\<close> assigns all three attributes.\<close>

definition Snake_reset :: "snake \<Rightarrow> snake" where
  "Snake_reset s =
     (let start_x = WINDOW_WIDTH div 2 div CELL_SIZE * CELL_SIZE;
          start_y = WINDOW_HEIGHT div 2 div CELL_SIZE * CELL_SIZE
      in s\<lparr>body := [(start_x, start_y)], direction := RIGHT, grow := False\<rparr>)"

text \<open>
  \<^verbatim>\<open>Snake()\<close>: the constructor calls \<^verbatim>\<open>reset\<close> on an object without attributes; the
  placeholder values below are all overwritten by it.
\<close>

definition Snake_init :: snake where
  "Snake_init = Snake_reset \<lparr>body = [], direction = (0, 0), grow = False\<rparr>"

text \<open>
  \<^verbatim>\<open>Snake.move\<close>: \<^verbatim>\<open>body.insert(0, new_head)\<close>, then \<^verbatim>\<open>body.pop()\<close> unless the snake
  grows. Reading \<^verbatim>\<open>body[0]\<close> of an empty list raises.
\<close>

definition move :: "snake \<Rightarrow> error + snake" where
  "move s =
     (case body s of
        [] \<Rightarrow> Inl IndexError
      | (head_x, head_y) # _ \<Rightarrow>
          (let (dir_x, dir_y) = direction s;
               new_head = (head_x + dir_x * CELL_SIZE, head_y + dir_y * CELL_SIZE);
               s1 = s\<lparr>body := new_head # body s\<rparr>
           in if \<not> grow s1 then Inr (s1\<lparr>body := butlast (body s1)\<rparr>)
              else Inr (s1\<lparr>grow := False\<rparr>)))"

definition change_direction :: "heading \<Rightarrow> snake \<Rightarrow> error + snake" where
  "change_direction new_direction s =
     (let opposite = (- fst (direction s), - snd (direction s))
      in if new_direction \<noteq> opposite then Inr (s\<lparr>direction := new_direction\<rparr>)
         else Inr s)"

text \<open>
  \<^verbatim>\<open>Snake.check_collision\<close> returns its verdict together with the snake it leaves behind;
  \<^verbatim>\<open>self.body[1:]\<close> is \<open>drop 1\<close>.
\<close>

definition check_collision :: "snake \<Rightarrow> error + (bool \<times> snake)" where
  "check_collision s =
     (case body s of
        [] \<Rightarrow> Inl IndexError
      | head # _ \<Rightarrow>
          if fst head < 0 \<or> fst head \<ge> WINDOW_WIDTH
             \<or> snd head < 0 \<or> snd head \<ge> WINDOW_HEIGHT
          then Inr (True, s)
          else if head \<in> set (drop 1 (body s)) then Inr (True, s)
          else Inr (False, s))"

subsection \<open>Class \<^verbatim>\<open>Apple\<close>\<close>

record apple =
  position :: cell

text \<open>
  The \<^verbatim>\<open>while True\<close> loop of \<^verbatim>\<open>Apple.spawn\<close>: each round draws \<open>x\<close>, then \<open>y\<close>, assigns
  \<^verbatim>\<open>self.position\<close> and leaves the loop when the position is not in \<^verbatim>\<open>snake_body\<close>.
  The result is \<open>None\<close> when the loop never ends.
\<close>

partial_function (option) spawn_loop :: "cell list \<Rightarrow> apple \<Rightarrow> rng \<Rightarrow> (apple \<times> rng) option" where
  "spawn_loop snake_body a r =
     (case randint 0 ((WINDOW_WIDTH - CELL_SIZE) div CELL_SIZE) r of (i, r1) \<Rightarrow>
      case randint 0 ((WINDOW_HEIGHT - CELL_SIZE) div CELL_SIZE) r1 of (j, r2) \<Rightarrow>
        (let x = i * CELL_SIZE;
             y = j * CELL_SIZE;
             a1 = a\<lparr>position := (x, y)\<rparr>
         in if position a1 \<notin> set snake_body then Some (a1, r2)
            else spawn_loop snake_body a1 r2))"

text \<open>\<^verbatim>\<open>Apple.spawn(snake_body=None)\<close>: the argument left out is \<open>None\<close>.\<close>

definition spawn :: "cell list option \<Rightarrow> apple \<Rightarrow> rng \<Rightarrow> (apple \<times> rng) option" where
  "spawn snake_body a r =
     (let snake_body1 = (case snake_body of None \<Rightarrow> [] | Some b \<Rightarrow> b)
      in spawn_loop snake_body1 a r)"

text \<open>\<^verbatim>\<open>Apple()\<close>: position \<open>(0, 0)\<close>, then \<^verbatim>\<open>self.spawn()\<close>.\<close>

definition Apple_init :: "rng \<Rightarrow> (apple \<times> rng) option" where
  "Apple_init r = spawn None \<lparr>position = (0, 0)\<rparr> r"

subsection \<open>Class \<^verbatim>\<open>Game\<close>\<close>

record game =
  snake :: snake
  apple :: apple
  score :: int
  game_over :: bool

text \<open>
  \<^verbatim>\<open>Game.reset\<close>: a new snake, a new apple (whose constructor spawns once with no
  argument), a second spawn that avoids the snake's body, score and flag cleared.
\<close>

definition Game_reset :: "game \<Rightarrow> rng \<Rightarrow> (game \<times> rng) option" where
  "Game_reset g r =
     (let s = Snake_init in
      case Apple_init r of
        None \<Rightarrow> None
      | Some (a1, r1) \<Rightarrow>
          (case spawn (Some (body s)) a1 r1 of
             None \<Rightarrow> None
           | Some (a2, r2) \<Rightarrow>
               Some (g\<lparr>snake := s, apple := a2, score := 0, game_over := False\<rparr>, r2)))"

text \<open>
  \<^verbatim>\<open>Game()\<close>: the constructor opens the window and calls \<^verbatim>\<open>reset\<close>, which overwrites
  every placeholder below.
\<close>

definition Game_init :: "rng \<Rightarrow> (game \<times> rng) option" where
  "Game_init r =
     Game_reset \<lparr>snake = \<lparr>body = [], direction = (0, 0), grow = False\<rparr>,
                 apple = \<lparr>position = (0, 0)\<rparr>, score = 0, game_over = False\<rparr> r"

text \<open>
  The events of the window library: its key codes are distinct constants, \<open>K_other\<close>
  stands for every key the game does not look at, \<open>OTHER\<close> for every event type that
  is neither \<^verbatim>\<open>QUIT\<close> nor \<^verbatim>\<open>KEYDOWN\<close>.
\<close>

datatype key = K_UP | K_DOWN | K_LEFT | K_RIGHT | K_w | K_s | K_a | K_d
  | K_SPACE | K_ESCAPE | K_other

datatype event = QUIT | KEYDOWN key | OTHER

text \<open>The call \<^verbatim>\<open>self.snake.change_direction(d)\<close> on the game's snake.\<close>

definition steer :: "heading \<Rightarrow> game \<Rightarrow> error + game" where
  "steer d g =
     (case change_direction d (snake g) of
        Inl e \<Rightarrow> Inl e
      | Inr s \<Rightarrow> Inr (g\<lparr>snake := s\<rparr>))"

text \<open>
  \<^verbatim>\<open>Game.handle_events\<close>: the argument is the list \<^verbatim>\<open>pygame.event.get()\<close> returned.
  The result is the value returned (\<open>False\<close> to leave the main loop) with the new state.
\<close>

fun handle_events :: "event list \<Rightarrow> game \<Rightarrow> rng \<Rightarrow> (error + bool \<times> game \<times> rng) option" where
  "handle_events [] g r = Some (Inr (True, g, r))"
| "handle_events (QUIT # evs) g r = Some (Inr (False, g, r))"
| "handle_events (OTHER # evs) g r = handle_events evs g r"
| "handle_events (KEYDOWN k # evs) g r =
     (if game_over g then
        (if k = K_SPACE then
           (case Game_reset g r of
              None \<Rightarrow> None
            | Some (g1, r1) \<Rightarrow> handle_events evs g1 r1)
         else if k = K_ESCAPE then Some (Inr (False, g, r))
         else handle_events evs g r)
      else
        (if k = K_UP \<or> k = K_w then
           (case steer UP g of Inl e \<Rightarrow> Some (Inl e) | Inr g1 \<Rightarrow> handle_events evs g1 r)
         else if k = K_DOWN \<or> k = K_s then
           (case steer DOWN g of Inl e \<Rightarrow> Some (Inl e) | Inr g1 \<Rightarrow> handle_events evs g1 r)
         else if k = K_LEFT \<or> k = K_a then
           (case steer LEFT g of Inl e \<Rightarrow> Some (Inl e) | Inr g1 \<Rightarrow> handle_events evs g1 r)
         else if k = K_RIGHT \<or> k = K_d then
           (case steer RIGHT g of Inl e \<Rightarrow> Some (Inl e) | Inr g1 \<Rightarrow> handle_events evs g1 r)
         else if k = K_ESCAPE then Some (Inr (False, g, r))
         else handle_events evs g r))"

text \<open>
  The apple test of \<^verbatim>\<open>Game.update\<close> (the statement
  \<^verbatim>\<open>if self.snake.body[0] == self.apple.position: ...\<close>), on the game as the move left
  it: growth flag set, score incremented, then the respawn on the snake's body, which may
  not return.
\<close>

definition eat_apple :: "game \<Rightarrow> rng \<Rightarrow> (error + game \<times> rng) option" where
  "eat_apple g r =
     (case body (snake g) of
        [] \<Rightarrow> Some (Inl IndexError)
      | h # _ \<Rightarrow>
          if h = position (apple g) then
            (let g1 = g\<lparr>snake := (snake g)\<lparr>grow := True\<rparr>\<rparr>;
                 g2 = g1\<lparr>score := score g1 + 1\<rparr>
             in case spawn (Some (body (snake g2))) (apple g2) r of
                  None \<Rightarrow> None
                | Some (a, r1) \<Rightarrow> Some (Inr (g2\<lparr>apple := a\<rparr>, r1)))
          else Some (Inr (g, r)))"

text \<open>
  \<^verbatim>\<open>Game.update\<close>, one tick: nothing when the game is over; otherwise the snake moves,
  then the apple test, then the collision test, which sets the game-over flag.
\<close>

definition update :: "game \<Rightarrow> rng \<Rightarrow> (error + game \<times> rng) option" where
  "update g r =
     (if game_over g then Some (Inr (g, r))
      else
        case move (snake g) of
          Inl e \<Rightarrow> Some (Inl e)
        | Inr s1 \<Rightarrow>
            (case eat_apple (g\<lparr>snake := s1\<rparr>) r of
               None \<Rightarrow> None
             | Some (Inl e) \<Rightarrow> Some (Inl e)
             | Some (Inr (g2, r2)) \<Rightarrow>
                 (case check_collision (snake g2) of
                    Inl e \<Rightarrow> Some (Inl e)
                  | Inr (hit, s3) \<Rightarrow>
                      if hit then Some (Inr (g2\<lparr>snake := s3, game_over := True\<rparr>, r2))
                      else Some (Inr (g2\<lparr>snake := s3\<rparr>, r2)))))"

text \<open>
  One iteration of the loop of \<^verbatim>\<open>Game.run\<close>: events first, then \<^verbatim>\<open>update\<close> (also
  when \<^verbatim>\<open>handle_events\<close> returned \<open>False\<close>); drawing and the clock change nothing.
\<close>

definition frame :: "event list \<Rightarrow> game \<Rightarrow> rng \<Rightarrow> (error + bool \<times> game \<times> rng) option" where
  "frame evs g r =
     (case handle_events evs g r of
        None \<Rightarrow> None
      | Some (Inl e) \<Rightarrow> Some (Inl e)
      | Some (Inr (running, g1, r1)) \<Rightarrow>
          (case update g1 r1 of
             None \<Rightarrow> None
           | Some (Inl e) \<Rightarrow> Some (Inl e)
           | Some (Inr (g2, r2)) \<Rightarrow> Some (Inr (running, g2, r2))))"

text \<open>
  \<^verbatim>\<open>Game.run\<close> on the event lists of its first iterations: the loop ends when
  \<open>running\<close> is \<open>False\<close>; the state is read when the given lists are used up.
\<close>

fun run :: "event list list \<Rightarrow> game \<Rightarrow> rng \<Rightarrow> (error + game \<times> rng) option" where
  "run [] g r = Some (Inr (g, r))"
| "run (evs # rest) g r =
     (case frame evs g r of
        None \<Rightarrow> None
      | Some (Inl e) \<Rightarrow> Some (Inl e)
      | Some (Inr (running, g1, r1)) \<Rightarrow>
          if running then run rest g1 r1 else Some (Inr (g1, r1)))"

definition main :: "event list list \<Rightarrow> rng \<Rightarrow> (error + game \<times> rng) option" where
  "main frames r =
     (case Game_init r of
        None \<Rightarrow> None
      | Some (g, r1) \<Rightarrow> run frames g r1)"

subsection \<open>Notions used to state the properties\<close>

text \<open>The random source after \<open>m\<close> draws have been consumed.\<close>

definition after :: "nat \<Rightarrow> rng \<Rightarrow> rng" where
  "after m r = (\<lambda>n. r (n + m))"

text \<open>
  The position that round \<open>k\<close> (counted from 0) of the sampling loop of \<^verbatim>\<open>Apple.spawn\<close>
  proposes when the loop starts with the random source \<open>r\<close>: every round consumes two
  draws, \<open>x\<close> first.
\<close>

definition sample :: "rng \<Rightarrow> nat \<Rightarrow> cell" where
  "sample r k =
     (fst (randint 0 ((WINDOW_WIDTH - CELL_SIZE) div CELL_SIZE) (after (2 * k) r)) * CELL_SIZE,
      fst (randint 0 ((WINDOW_HEIGHT - CELL_SIZE) div CELL_SIZE) (after (2 * k + 1) r)) * CELL_SIZE)"

text \<open>A grid-aligned cell of the board.\<close>

definition on_board :: "cell \<Rightarrow> bool" where
  "on_board c =
     (fst c mod CELL_SIZE = 0 \<and> snd c mod CELL_SIZE = 0
      \<and> 0 \<le> fst c \<and> fst c < WINDOW_WIDTH \<and> 0 \<le> snd c \<and> snd c < WINDOW_HEIGHT)"

text \<open>The apple does not lie on the snake.\<close>

definition apple_off_snake :: "game \<Rightarrow> bool" where
  "apple_off_snake g = (position (apple g) \<notin> set (body (snake g)))"

text \<open>
  A snake that has almost won: its body runs row by row over the board, to the right on
  even rows and to the left on odd rows, and covers every cell but the origin, where the
  apple lies; the head is at \<open>(20, 0)\<close> heading left, and the growth of the apple eaten
  in the previous tick is still pending.
\<close>

definition board_row :: "int \<Rightarrow> cell list" where
  "board_row j =
     map (\<lambda>i. (i * CELL_SIZE, j * CELL_SIZE)) (if even j then [0..31] else rev [0..31])"

definition serpentine :: "cell list" where
  "serpentine = concat (map board_row [0..23])"

definition endgame :: game where
  "endgame = \<lparr>snake = \<lparr>body = tl serpentine, direction = LEFT, grow = True\<rparr>,
               apple = \<lparr>position = (0, 0)\<rparr>, score = 767, game_over = False\<rparr>"

section \<open>Properties\<close>

subsection \<open>The snake\<close>

text \<open>
  Claim C2. \<^verbatim>\<open>move()\<close> on a snake with a head returns normally; the new head is the old head
  plus the heading scaled by the cell size and is put in front of the body. With the growth
  flag clear at the start, the last element of the extended body is removed and the length
  is unchanged; with the flag set, the old body is kept whole, the length grows by exactly
  one and the flag is cleared. The heading is not touched.
\<close>

theorem move_spec:
  assumes "body s \<noteq> []"
  shows "\<exists>s'. move s = Inr s'
     \<and> hd (body s') = (fst (hd (body s)) + fst (direction s) * CELL_SIZE,
                        snd (hd (body s)) + snd (direction s) * CELL_SIZE)
     \<and> direction s' = direction s
     \<and> \<not> grow s'
     \<and> (\<not> grow s \<longrightarrow> body s' = butlast (hd (body s') # body s)
                      \<and> body s' = hd (body s') # butlast (body s)
                      \<and> length (body s') = length (body s))
     \<and> (grow s \<longrightarrow> body s' = hd (body s') # body s
                    \<and> length (body s') = length (body s) + 1)"
proof -
  obtain h t where b: "body s = h # t" using assms by (cases "body s") auto
  obtain hx hy where h: "h = (hx, hy)" by (cases h)
  obtain dx dy where d: "direction s = (dx, dy)" by (cases "direction s")
  show ?thesis
  proof (cases "grow s")
    case True
    then show ?thesis by (simp add: move_def b h d)
  next
    case False
    then show ?thesis by (simp add: move_def b h d)
  qed
qed

theorem move_spec_witness:
  "body \<lparr>body = [(320, 240), (300, 240)], direction = UP, grow = False\<rparr> \<noteq> []
   \<and> move \<lparr>body = [(320, 240), (300, 240)], direction = UP, grow = False\<rparr>
       = Inr \<lparr>body = [(320, 220), (320, 240)], direction = UP, grow = False\<rparr>
   \<and> move \<lparr>body = [(320, 240), (300, 240)], direction = UP, grow = True\<rparr>
       = Inr \<lparr>body = [(320, 220), (320, 240), (300, 240)], direction = UP, grow = False\<rparr>"
  using move_spec [of "\<lparr>body = [(320, 240), (300, 240)], direction = UP, grow = False\<rparr>"]
    move_spec [of "\<lparr>body = [(320, 240), (300, 240)], direction = UP, grow = True\<rparr>"]
  by (auto simp add: UP_def CELL_SIZE_def)

text \<open>
  Claim C3. On a snake with a head, \<^verbatim>\<open>check_collision()\<close> returns true exactly when the
  head's \<open>x\<close> is outside \<open>[0, WINDOW_WIDTH)\<close>, or its \<open>y\<close> is outside
  \<open>[0, WINDOW_HEIGHT)\<close>, or the head equals a body element at some index \<open>i \<ge> 1\<close>; the
  snake it leaves behind is the snake it was given; and on a freshly reset snake it returns
  false.
\<close>

theorem check_collision_spec:
  "(body s \<noteq> [] \<longrightarrow>
      check_collision s =
        Inr (\<not> (0 \<le> fst (hd (body s)) \<and> fst (hd (body s)) < WINDOW_WIDTH)
             \<or> \<not> (0 \<le> snd (hd (body s)) \<and> snd (hd (body s)) < WINDOW_HEIGHT)
             \<or> (\<exists>i. 1 \<le> i \<and> i < length (body s) \<and> body s ! i = hd (body s)), s))
   \<and> check_collision (Snake_reset s) = Inr (False, Snake_reset s)"
proof -
  have mem: "(x \<in> set (drop 1 xs)) = (\<exists>i. 1 \<le> i \<and> i < length xs \<and> xs ! i = x)" for x :: cell and xs
  proof (cases xs)
    case Nil then show ?thesis by simp
  next
    case (Cons y ys)
    have "(x \<in> set ys) = (\<exists>j<length ys. ys ! j = x)" by (simp add: in_set_conv_nth)
    also have "\<dots> = (\<exists>i. 1 \<le> i \<and> i < length (y # ys) \<and> (y # ys) ! i = x)"
    proof
      assume "\<exists>j<length ys. ys ! j = x"
      then obtain j where "j < length ys" "ys ! j = x" by blast
      then have "1 \<le> Suc j \<and> Suc j < length (y # ys) \<and> (y # ys) ! Suc j = x" by simp
      then show "\<exists>i. 1 \<le> i \<and> i < length (y # ys) \<and> (y # ys) ! i = x" by blast
    next
      assume "\<exists>i. 1 \<le> i \<and> i < length (y # ys) \<and> (y # ys) ! i = x"
      then obtain i where i: "1 \<le> i" "i < length (y # ys)" "(y # ys) ! i = x" by blast
      then obtain j where "i = Suc j" by (cases i) auto
      with i have "j < length ys \<and> ys ! j = x" by simp
      then show "\<exists>j<length ys. ys ! j = x" by blast
    qed
    finally show ?thesis using Cons by simp
  qed
  have first: "body s \<noteq> [] \<longrightarrow>
      check_collision s =
        Inr (\<not> (0 \<le> fst (hd (body s)) \<and> fst (hd (body s)) < WINDOW_WIDTH)
             \<or> \<not> (0 \<le> snd (hd (body s)) \<and> snd (hd (body s)) < WINDOW_HEIGHT)
             \<or> (\<exists>i. 1 \<le> i \<and> i < length (body s) \<and> body s ! i = hd (body s)), s)"
  proof
    assume "body s \<noteq> []"
    then obtain h t where b: "body s = h # t" by (cases "body s") auto
    show "check_collision s =
        Inr (\<not> (0 \<le> fst (hd (body s)) \<and> fst (hd (body s)) < WINDOW_WIDTH)
             \<or> \<not> (0 \<le> snd (hd (body s)) \<and> snd (hd (body s)) < WINDOW_HEIGHT)
             \<or> (\<exists>i. 1 \<le> i \<and> i < length (body s) \<and> body s ! i = hd (body s)), s)"
      unfolding mem [symmetric]
      by (auto simp add: check_collision_def b)
  qed
  have second: "check_collision (Snake_reset s) = Inr (False, Snake_reset s)"
    by (simp add: check_collision_def Snake_reset_def WINDOW_WIDTH_def WINDOW_HEIGHT_def
        CELL_SIZE_def Let_def)
  from first second show ?thesis by blast
qed

theorem check_collision_spec_witness:
  "check_collision \<lparr>body = [(20, 0), (0, 0), (0, 20), (20, 20), (20, 0)], direction = UP, grow = False\<rparr>
     = Inr (True, \<lparr>body = [(20, 0), (0, 0), (0, 20), (20, 20), (20, 0)], direction = UP, grow = False\<rparr>)
   \<and> check_collision \<lparr>body = [(620, 0), (600, 0)], direction = RIGHT, grow = False\<rparr>
     = Inr (False, \<lparr>body = [(620, 0), (600, 0)], direction = RIGHT, grow = False\<rparr>)
   \<and> check_collision \<lparr>body = [(640, 0), (620, 0)], direction = RIGHT, grow = False\<rparr>
     = Inr (True, \<lparr>body = [(640, 0), (620, 0)], direction = RIGHT, grow = False\<rparr>)"
proof -
  have "\<exists>i. 1 \<le> i \<and> i < length [(20, 0), (0, 0), (0, 20), (20, 20), (20::int, 0::int)]
     \<and> [(20, 0), (0, 0), (0, 20), (20, 20), (20::int, 0::int)] ! i = (20, 0)"
    by (rule exI [of _ 4]) simp
  moreover have "\<not> (\<exists>i. 1 \<le> i \<and> i < length [(620::int, 0::int), (600, 0)]
     \<and> [(620::int, 0::int), (600, 0)] ! i = (620, 0))"
    by (auto simp add: nth_Cons split: nat.splits)
  ultimately show ?thesis
  using check_collision_spec [of "\<lparr>body = [(20, 0), (0, 0), (0, 20), (20, 20), (20, 0)], direction = UP, grow = False\<rparr>"]
    check_collision_spec [of "\<lparr>body = [(620, 0), (600, 0)], direction = RIGHT, grow = False\<rparr>"]
    check_collision_spec [of "\<lparr>body = [(640, 0), (620, 0)], direction = RIGHT, grow = False\<rparr>"]
  by (simp add: WINDOW_WIDTH_def WINDOW_HEIGHT_def)
qed

text \<open>
  Claim C8. \<^verbatim>\<open>change_direction(d)\<close> leaves the snake as it is when \<open>d\<close> is the exact
  opposite of the heading and sets the heading to \<open>d\<close> otherwise; in both cases it
  returns normally (\<open>Inr\<close>), no error is signalled.
\<close>

theorem change_direction_spec:
  "(d = (- fst (direction s), - snd (direction s)) \<longrightarrow> change_direction d s = Inr s)
   \<and> (d \<noteq> (- fst (direction s), - snd (direction s)) \<longrightarrow>
        change_direction d s = Inr (s\<lparr>direction := d\<rparr>))"
  by (simp add: change_direction_def)

theorem change_direction_spec_witness:
  "LEFT = (- fst (direction \<lparr>body = [(320, 240)], direction = RIGHT, grow = False\<rparr>),
           - snd (direction \<lparr>body = [(320, 240)], direction = RIGHT, grow = False\<rparr>))
   \<and> change_direction LEFT \<lparr>body = [(320, 240)], direction = RIGHT, grow = False\<rparr>
       = Inr \<lparr>body = [(320, 240)], direction = RIGHT, grow = False\<rparr>
   \<and> UP \<noteq> (- fst (direction \<lparr>body = [(320, 240)], direction = RIGHT, grow = False\<rparr>),
           - snd (direction \<lparr>body = [(320, 240)], direction = RIGHT, grow = False\<rparr>))
   \<and> change_direction UP \<lparr>body = [(320, 240)], direction = RIGHT, grow = False\<rparr>
       = Inr \<lparr>body = [(320, 240)], direction = UP, grow = False\<rparr>"
  using change_direction_spec [of LEFT "\<lparr>body = [(320, 240)], direction = RIGHT, grow = False\<rparr>"]
    change_direction_spec [of UP "\<lparr>body = [(320, 240)], direction = RIGHT, grow = False\<rparr>"]
  by (simp add: LEFT_def RIGHT_def UP_def)

subsection \<open>The apple\<close>

lemma after_after: "after m (after k r) = after (k + m) r"
  by (simp add: after_def ac_simps)

lemma randint_after: "randint a b r = (a + int (r 0 mod nat (b - a + 1)), after 1 r)"
  by (simp add: randint_def after_def)

lemma sample_eq: "sample r k = (int (r (2 * k) mod 32) * 20, int (r (2 * k + 1) mod 24) * 20)"
  by (simp add: sample_def randint_def after_def WINDOW_WIDTH_def WINDOW_HEIGHT_def CELL_SIZE_def)

lemma sample_after: "sample (after 2 r) k = sample r (Suc k)"
  by (simp add: sample_eq after_def)

lemma sample_on_board: "on_board (sample r k)"
proof -
  have "int (r (2 * k) mod 32) < 32" "int (r (2 * k + 1) mod 24) < 24" by simp_all
  then show ?thesis by (simp add: on_board_def sample_eq WINDOW_WIDTH_def WINDOW_HEIGHT_def CELL_SIZE_def)
qed

lemma spawn_loop_step:
  "spawn_loop occ a r =
     (if sample r 0 \<notin> set occ then Some (a\<lparr>position := sample r 0\<rparr>, after 2 r)
      else spawn_loop occ (a\<lparr>position := sample r 0\<rparr>) (after 2 r))"
  by (subst spawn_loop.simps)
     (simp add: sample_eq randint_after after_after WINDOW_WIDTH_def WINDOW_HEIGHT_def
        CELL_SIZE_def Let_def, simp add: after_def)

lemma spawn_loop_first_free:
  "sample r k \<notin> set occ \<Longrightarrow> \<forall>j<k. sample r j \<in> set occ \<Longrightarrow>
   spawn_loop occ a r = Some (a\<lparr>position := sample r k\<rparr>, after (2 * Suc k) r)"
proof (induction k arbitrary: r a)
  case 0
  then show ?case by (subst spawn_loop_step) simp
next
  case (Suc k)
  have occ0: "sample r 0 \<in> set occ" using Suc.prems(2) by blast
  have free: "sample (after 2 r) k \<notin> set occ"
    using Suc.prems(1) by (simp add: sample_after)
  have busy: "\<forall>j<k. sample (after 2 r) j \<in> set occ"
    using Suc.prems(2) by (simp add: sample_after)
  have "spawn_loop occ a r = spawn_loop occ (a\<lparr>position := sample r 0\<rparr>) (after 2 r)"
    using occ0 by (subst spawn_loop_step) simp
  also have "\<dots> = Some (a\<lparr>position := sample r 0, position := sample (after 2 r) k\<rparr>,
      after (2 * Suc k) (after 2 r))"
    using Suc.IH [OF free busy] by simp
  finally show ?case by (simp add: sample_after after_after)
qed

lemma spawn_loop_returns:
  assumes "sample r k \<notin> set occ"
  shows "\<exists>a' r'. spawn_loop occ a r = Some (a', r')"
proof -
  define m where "m = (LEAST j. sample r j \<notin> set occ)"
  have free: "sample r m \<notin> set occ"
    unfolding m_def using assms by (rule LeastI)
  have "\<forall>j<m. sample r j \<in> set occ"
    unfolding m_def using not_less_Least by blast
  from spawn_loop_first_free [OF free this] show ?thesis by blast
qed

lemma spawn_loop_sound:
  assumes ret: "spawn_loop occ a r = Some y"
  shows "position (fst y) \<notin> set occ
     \<and> (\<exists>k. fst y = a\<lparr>position := sample r k\<rparr> \<and> snd y = after (2 * Suc k) r)"
proof (rule spawn_loop.raw_induct [where P = "\<lambda>occ a r y. position (fst y) \<notin> set occ
     \<and> (\<exists>k. fst y = a\<lparr>position := sample r k\<rparr> \<and> snd y = after (2 * Suc k) r)", OF _ ret])
  fix f :: "cell list \<Rightarrow> apple \<Rightarrow> rng \<Rightarrow> (apple \<times> rng) option"
  fix occ a r y
  assume IH: "\<And>occ a r y. f occ a r = Some y \<Longrightarrow> position (fst y) \<notin> set occ
     \<and> (\<exists>k. fst y = a\<lparr>position := sample r k\<rparr> \<and> snd y = after (2 * Suc k) r)"
  assume body: "(case randint 0 ((WINDOW_WIDTH - CELL_SIZE) div CELL_SIZE) r of
      (i, r1) \<Rightarrow>
        case randint 0 ((WINDOW_HEIGHT - CELL_SIZE) div CELL_SIZE) r1 of
        (j, r2) \<Rightarrow>
          let x = i * CELL_SIZE; y = j * CELL_SIZE; a1 = a\<lparr>position := (x, y)\<rparr>
          in if position a1 \<notin> set occ then Some (a1, r2) else f occ a1 r2) = Some y"
  show "position (fst y) \<notin> set occ
     \<and> (\<exists>k. fst y = a\<lparr>position := sample r k\<rparr> \<and> snd y = after (2 * Suc k) r)"
  proof (cases "sample r 0 \<in> set occ")
    case True
    then have rec: "f occ (a\<lparr>position := sample r 0\<rparr>) (after 2 r) = Some y"
      using body
      by (simp add: sample_eq randint_after after_after WINDOW_WIDTH_def WINDOW_HEIGHT_def
        CELL_SIZE_def Let_def after_def)
    from IH [OF rec] obtain k where
      "position (fst y) \<notin> set occ"
      "fst y = a\<lparr>position := sample r 0, position := sample (after 2 r) k\<rparr>"
      "snd y = after (2 * Suc k) (after 2 r)" by blast
    then have "position (fst y) \<notin> set occ \<and> fst y = a\<lparr>position := sample r (Suc k)\<rparr>
       \<and> snd y = after (2 * Suc (Suc k)) r"
      by (simp add: sample_after after_after)
    then show ?thesis by blast
  next
    case False
    then have "y = (a\<lparr>position := sample r 0\<rparr>, after 2 r)"
      using body
      by (simp add: sample_eq randint_after after_after WINDOW_WIDTH_def WINDOW_HEIGHT_def
        CELL_SIZE_def Let_def after_def)
    with False have "position (fst y) \<notin> set occ \<and> fst y = a\<lparr>position := sample r 0\<rparr>
        \<and> snd y = after (2 * Suc 0) r"
      by simp
    then show ?thesis by blast
  qed
qed

lemma spawn_loop_position:
  assumes "spawn_loop occ a r = Some (a', r')"
  shows "position a' \<notin> set occ \<and> on_board (position a')"
proof -
  from spawn_loop_sound [OF assms] obtain k where
    "position a' \<notin> set occ" "a' = a\<lparr>position := sample r k\<rparr>" by auto
  then show ?thesis by (simp add: sample_on_board)
qed

text \<open>
  Claim C4. When \<^verbatim>\<open>spawn(occupied)\<close> returns, the apple's position is not in
  \<open>occupied\<close>, both coordinates are multiples of the cell size, and it lies within the
  board; \<^verbatim>\<open>spawn()\<close> without argument is \<^verbatim>\<open>spawn([])\<close>. Moreover the call does
  return as soon as some round of the sampling loop proposes a free cell.
\<close>

theorem spawn_avoids_occupied:
  "(spawn (Some occupied) a r = Some (a', r') \<longrightarrow>
      position a' \<notin> set occupied
      \<and> fst (position a') mod CELL_SIZE = 0 \<and> snd (position a') mod CELL_SIZE = 0
      \<and> 0 \<le> fst (position a') \<and> fst (position a') < WINDOW_WIDTH
      \<and> 0 \<le> snd (position a') \<and> snd (position a') < WINDOW_HEIGHT)
   \<and> spawn None a r = spawn (Some []) a r
   \<and> (sample r k \<notin> set occupied \<longrightarrow> (\<exists>a1 r1. spawn (Some occupied) a r = Some (a1, r1)))"
proof -
  have sound: "spawn (Some occupied) a r = Some (a', r') \<longrightarrow>
      position a' \<notin> set occupied
      \<and> fst (position a') mod CELL_SIZE = 0 \<and> snd (position a') mod CELL_SIZE = 0
      \<and> 0 \<le> fst (position a') \<and> fst (position a') < WINDOW_WIDTH
      \<and> 0 \<le> snd (position a') \<and> snd (position a') < WINDOW_HEIGHT"
    using spawn_loop_position [of occupied a r a' r']
    by (simp add: spawn_def on_board_def)
  have dflt: "spawn None a r = spawn (Some []) a r"
    by (simp add: spawn_def)
  have returns: "sample r k \<notin> set occupied \<longrightarrow> (\<exists>a1 r1. spawn (Some occupied) a r = Some (a1, r1))"
    using spawn_loop_returns [of r k occupied a] by (simp add: spawn_def)
  from sound dflt returns show ?thesis by blast
qed

theorem spawn_avoids_occupied_witness:
  "spawn (Some [(0, 0), (20, 0)]) \<lparr>position = (0, 0)\<rparr> (\<lambda>n. n div 4)
     = Some (\<lparr>position = (20, 20)\<rparr>, after 6 (\<lambda>n. n div 4))
   \<and> sample (\<lambda>n. n div 4) 2 \<notin> set [(0, 0), (20, 0)]
   \<and> position \<lparr>position = (20, 20)\<rparr> \<notin> set [(0, 0), (20, 0)]
   \<and> fst (position \<lparr>position = (20, 20)\<rparr>) mod CELL_SIZE = 0
   \<and> snd (position \<lparr>position = (20, 20)\<rparr>) mod CELL_SIZE = 0
   \<and> 0 \<le> fst (position \<lparr>position = (20, 20)\<rparr>)
   \<and> fst (position \<lparr>position = (20, 20)\<rparr>) < WINDOW_WIDTH
   \<and> 0 \<le> snd (position \<lparr>position = (20, 20)\<rparr>)
   \<and> snd (position \<lparr>position = (20, 20)\<rparr>) < WINDOW_HEIGHT
   \<and> spawn None \<lparr>position = (0, 0)\<rparr> (\<lambda>n. n div 4)
       = spawn (Some []) \<lparr>position = (0, 0)\<rparr> (\<lambda>n. n div 4)"
proof -
  have ret: "spawn (Some [(0, 0), (20, 0)]) \<lparr>position = (0, 0)\<rparr> (\<lambda>n. n div 4)
     = Some (\<lparr>position = (20, 20)\<rparr>, after 6 (\<lambda>n. n div 4))"
    unfolding spawn_def
    by (simp add: spawn_loop_first_free [of _ 2] sample_eq less_Suc_eq)
  have free: "sample (\<lambda>n. n div 4) 2 \<notin> set [(0, 0), (20, 0)]"
    by (simp add: sample_eq)
  from ret free
    spawn_avoids_occupied [of "[(0, 0), (20, 0)]" "\<lparr>position = (0, 0)\<rparr>" "\<lambda>n. n div 4"
      "\<lparr>position = (20, 20)\<rparr>" "after 6 (\<lambda>n. n div 4)" 2]
  show ?thesis by simp
qed

subsection \<open>The game\<close>

lemma handle_events_game_over:
  assumes "game_over g" and "KEYDOWN K_SPACE \<notin> set evs"
  shows "\<exists>running. handle_events evs g r = Some (Inr (running, g, r))"
  using assms(2)
proof (induction evs)
  case Nil
  show ?case by auto
next
  case (Cons ev evs)
  then have IH: "\<exists>running. handle_events evs g r = Some (Inr (running, g, r))" by simp
  show ?case
  proof (cases ev)
    case QUIT
    then show ?thesis by auto
  next
    case OTHER
    with IH show ?thesis by simp
  next
    case (KEYDOWN k)
    with Cons.prems have "k \<noteq> K_SPACE" by auto
    with IH KEYDOWN assms(1) show ?thesis by auto
  qed
qed

lemma run_game_over:
  assumes "game_over g" and "\<forall>evs\<in>set frames. KEYDOWN K_SPACE \<notin> set evs"
  shows "run frames g r = Some (Inr (g, r))"
  using assms(2)
proof (induction frames)
  case Nil
  show ?case by simp
next
  case (Cons evs frames)
  then have nospace: "KEYDOWN K_SPACE \<notin> set evs"
    and IH: "run frames g r = Some (Inr (g, r))" by simp_all
  from handle_events_game_over [OF assms(1) nospace] obtain running where
    "handle_events evs g r = Some (Inr (running, g, r))" by blast
  then have "frame evs g r = Some (Inr (running, g, r))"
    using assms(1) by (simp add: frame_def update_def)
  with IH show ?case by simp
qed

text \<open>
  Claim C7. With the game-over flag set, \<^verbatim>\<open>update()\<close> returns the game unchanged (snake
  body, heading and growth flag, apple, score and flag) and consumes no random draw. So
  does every further call: over any number of iterations of the main loop whose events
  do not contain the restart key (Space), the state stays what it was; the direction keys
  are not even looked at.
\<close>

theorem update_game_over:
  assumes "game_over g"
  shows "update g r = Some (Inr (g, r))
     \<and> ((\<forall>evs\<in>set frames. KEYDOWN K_SPACE \<notin> set evs) \<longrightarrow> run frames g r = Some (Inr (g, r)))"
  using assms run_game_over [OF assms] by (simp add: update_def)

theorem update_game_over_witness:
  "game_over \<lparr>snake = \<lparr>body = [(640, 240), (620, 240)], direction = RIGHT, grow = False\<rparr>,
       apple = \<lparr>position = (0, 0)\<rparr>, score = 1, game_over = True\<rparr>
   \<and> update \<lparr>snake = \<lparr>body = [(640, 240), (620, 240)], direction = RIGHT, grow = False\<rparr>,
       apple = \<lparr>position = (0, 0)\<rparr>, score = 1, game_over = True\<rparr> (\<lambda>n. n)
     = Some (Inr (\<lparr>snake = \<lparr>body = [(640, 240), (620, 240)], direction = RIGHT, grow = False\<rparr>,
       apple = \<lparr>position = (0, 0)\<rparr>, score = 1, game_over = True\<rparr>, \<lambda>n. n))
   \<and> KEYDOWN K_SPACE \<notin> set [KEYDOWN K_UP, KEYDOWN K_a]
   \<and> KEYDOWN K_SPACE \<notin> set []
   \<and> KEYDOWN K_SPACE \<notin> set [OTHER]
   \<and> run [[KEYDOWN K_UP, KEYDOWN K_a], [], [OTHER]]
       \<lparr>snake = \<lparr>body = [(640, 240), (620, 240)], direction = RIGHT, grow = False\<rparr>,
       apple = \<lparr>position = (0, 0)\<rparr>, score = 1, game_over = True\<rparr> (\<lambda>n. n)
     = Some (Inr (\<lparr>snake = \<lparr>body = [(640, 240), (620, 240)], direction = RIGHT, grow = False\<rparr>,
       apple = \<lparr>position = (0, 0)\<rparr>, score = 1, game_over = True\<rparr>, \<lambda>n. n))"
  using update_game_over [of "\<lparr>snake = \<lparr>body = [(640, 240), (620, 240)], direction = RIGHT, grow = False\<rparr>,
       apple = \<lparr>position = (0, 0)\<rparr>, score = 1, game_over = True\<rparr>" "\<lambda>n. n"
       "[[KEYDOWN K_UP, KEYDOWN K_a], [], [OTHER]]"]
  by simp

lemma Snake_reset_eq:
  "Snake_reset s = s\<lparr>body := [(320, 240)], direction := RIGHT, grow := False\<rparr>"
  by (simp add: Snake_reset_def WINDOW_WIDTH_def WINDOW_HEIGHT_def CELL_SIZE_def)

lemma Snake_init_eq:
  "Snake_init = \<lparr>body = [(320, 240)], direction = RIGHT, grow = False\<rparr>"
  by (simp add: Snake_init_def Snake_reset_eq)

lemma Apple_init_eq: "Apple_init r = Some (\<lparr>position = sample r 0\<rparr>, after 2 r)"
  unfolding Apple_init_def spawn_def
  by (subst spawn_loop_step) simp

lemma spawn_sound:
  assumes "spawn occ a r = Some (a', r')"
  shows "position a' \<notin> set (case occ of None \<Rightarrow> [] | Some b \<Rightarrow> b) \<and> on_board (position a')"
  using spawn_loop_position [of "case occ of None \<Rightarrow> [] | Some b \<Rightarrow> b" a r a' r'] assms
  by (simp add: spawn_def)

lemma spawn_returns:
  assumes "sample r k \<notin> set (case occ of None \<Rightarrow> [] | Some b \<Rightarrow> b)"
  shows "\<exists>a' r'. spawn occ a r = Some (a', r')"
  using spawn_loop_returns [OF assms] by (simp add: spawn_def)

lemma Game_reset_sound:
  assumes "Game_reset g r = Some (g', r')"
  shows "snake g' = Snake_init \<and> score g' = 0 \<and> \<not> game_over g'
     \<and> position (apple g') \<notin> set (body Snake_init) \<and> on_board (position (apple g'))"
proof -
  from assms obtain a2 where
    sp: "spawn (Some (body Snake_init)) \<lparr>position = sample r 0\<rparr> (after 2 r) = Some (a2, r')"
    and g': "g' = g\<lparr>snake := Snake_init, apple := a2, score := 0, game_over := False\<rparr>"
    by (auto simp add: Game_reset_def Apple_init_eq split: option.splits)
  from spawn_sound [OF sp] g' show ?thesis by simp
qed

lemma Game_reset_returns:
  assumes "sample (after 2 r) k \<noteq> (320, 240)"
  shows "\<exists>g1 r1. Game_reset g r = Some (g1, r1)"
proof -
  have "sample (after 2 r) k \<notin> set (case Some (body Snake_init) of None \<Rightarrow> [] | Some b \<Rightarrow> b)"
    using assms by (simp add: Snake_init_eq)
  from spawn_returns [OF this] obtain a2 r2 where
    "spawn (Some (body Snake_init)) \<lparr>position = sample r 0\<rparr> (after 2 r) = Some (a2, r2)"
    by blast
  then show ?thesis by (simp add: Game_reset_def Apple_init_eq)
qed

lemma Game_reset_indep: "Game_reset g r = Game_reset g2 r"
  by (cases g; cases g2) (simp add: Game_reset_def split: option.splits)

text \<open>
  Claim C9. When \<^verbatim>\<open>Game.reset\<close> returns, the snake's body is the single cell
  \<open>(320, 240)\<close>, the board's centre \<open>(WINDOW_WIDTH div 2, WINDOW_HEIGHT div 2)\<close> rounded
  down to a multiple of the cell size in each coordinate; the heading is \<open>RIGHT\<close>, the
  growth flag is clear, the score is 0, the game-over flag is clear, and the apple lies on
  the board and not on the snake. The call returns as soon as some round of the second
  sampling loop proposes a cell other than the snake's. The restart key in a finished game
  is exactly this reset, and so is the construction of the game at program start, whatever
  the state was before.
\<close>

theorem Game_reset_spec:
  "(Game_reset g r = Some (g', r') \<longrightarrow>
      body (snake g') = [(WINDOW_WIDTH div 2 div CELL_SIZE * CELL_SIZE,
                          WINDOW_HEIGHT div 2 div CELL_SIZE * CELL_SIZE)]
      \<and> body (snake g') = [(320, 240)]
      \<and> direction (snake g') = RIGHT
      \<and> \<not> grow (snake g')
      \<and> score g' = 0
      \<and> \<not> game_over g'
      \<and> position (apple g') \<notin> set (body (snake g'))
      \<and> on_board (position (apple g')))
   \<and> (320 mod CELL_SIZE = 0 \<and> 320 \<le> WINDOW_WIDTH div 2 \<and> WINDOW_WIDTH div 2 < 320 + CELL_SIZE
      \<and> 240 mod CELL_SIZE = 0 \<and> 240 \<le> WINDOW_HEIGHT div 2 \<and> WINDOW_HEIGHT div 2 < 240 + CELL_SIZE)
   \<and> (sample (after 2 r) k \<noteq> (320, 240) \<longrightarrow> (\<exists>g1 r1. Game_reset g r = Some (g1, r1)))
   \<and> (game_over g \<longrightarrow>
        handle_events [KEYDOWN K_SPACE] g r =
          (case Game_reset g r of None \<Rightarrow> None | Some (g1, r1) \<Rightarrow> Some (Inr (True, g1, r1))))
   \<and> Game_init r = Game_reset g r"
proof -
  have a: "Game_reset g r = Some (g', r') \<longrightarrow>
      body (snake g') = [(WINDOW_WIDTH div 2 div CELL_SIZE * CELL_SIZE,
                          WINDOW_HEIGHT div 2 div CELL_SIZE * CELL_SIZE)]
      \<and> body (snake g') = [(320, 240)]
      \<and> direction (snake g') = RIGHT
      \<and> \<not> grow (snake g')
      \<and> score g' = 0
      \<and> \<not> game_over g'
      \<and> position (apple g') \<notin> set (body (snake g'))
      \<and> on_board (position (apple g'))"
    using Game_reset_sound [of g r g' r']
    by (simp add: Snake_init_eq WINDOW_WIDTH_def WINDOW_HEIGHT_def CELL_SIZE_def)
  have b: "320 mod CELL_SIZE = 0 \<and> 320 \<le> WINDOW_WIDTH div 2 \<and> WINDOW_WIDTH div 2 < 320 + CELL_SIZE
      \<and> 240 mod CELL_SIZE = 0 \<and> 240 \<le> WINDOW_HEIGHT div 2 \<and> WINDOW_HEIGHT div 2 < 240 + CELL_SIZE"
    by (simp add: WINDOW_WIDTH_def WINDOW_HEIGHT_def CELL_SIZE_def)
  have c: "sample (after 2 r) k \<noteq> (320, 240) \<longrightarrow> (\<exists>g1 r1. Game_reset g r = Some (g1, r1))"
    using Game_reset_returns [of r k g] by blast
  have d: "game_over g \<longrightarrow>
        handle_events [KEYDOWN K_SPACE] g r =
          (case Game_reset g r of None \<Rightarrow> None | Some (g1, r1) \<Rightarrow> Some (Inr (True, g1, r1)))"
    by (simp split: option.splits)
  have e: "Game_init r = Game_reset g r"
    unfolding Game_init_def by (rule Game_reset_indep)
  from a b c d e show ?thesis by blast
qed

theorem Game_reset_spec_witness:
  "Game_reset \<lparr>snake = \<lparr>body = [(640, 240), (620, 240)], direction = RIGHT, grow = True\<rparr>,
        apple = \<lparr>position = (0, 0)\<rparr>, score = 1, game_over = True\<rparr>
        (\<lambda>n. if n = 2 then 16 else if n = 3 then 12 else 7)
     = Some (\<lparr>snake = \<lparr>body = [(320, 240)], direction = RIGHT, grow = False\<rparr>,
        apple = \<lparr>position = (140, 140)\<rparr>, score = 0, game_over = False\<rparr>,
        after 6 (\<lambda>n. if n = 2 then 16 else if n = 3 then 12 else 7))
   \<and> (140 :: int, 140 :: int) \<notin> set [(320, 240)] \<and> on_board (140, 140)
   \<and> sample (after 2 (\<lambda>n. if n = 2 then 16 else if n = 3 then 12 else 7)) 1 \<noteq> (320, 240)
   \<and> handle_events [KEYDOWN K_SPACE]
        \<lparr>snake = \<lparr>body = [(640, 240), (620, 240)], direction = RIGHT, grow = True\<rparr>,
        apple = \<lparr>position = (0, 0)\<rparr>, score = 1, game_over = True\<rparr>
        (\<lambda>n. if n = 2 then 16 else if n = 3 then 12 else 7)
     = Some (Inr (True, \<lparr>snake = \<lparr>body = [(320, 240)], direction = RIGHT, grow = False\<rparr>,
        apple = \<lparr>position = (140, 140)\<rparr>, score = 0, game_over = False\<rparr>,
        after 6 (\<lambda>n. if n = 2 then 16 else if n = 3 then 12 else 7)))"
proof -
  let ?g = "\<lparr>snake = \<lparr>body = [(640, 240), (620, 240)], direction = RIGHT, grow = True\<rparr>,
        apple = \<lparr>position = (0, 0)\<rparr>, score = 1, game_over = True\<rparr>"
  let ?r = "\<lambda>n::nat. if n = 2 then 16 else if n = 3 then 12 else (7::nat)"
  let ?g' = "\<lparr>snake = \<lparr>body = [(320, 240)], direction = RIGHT, grow = False\<rparr>,
        apple = \<lparr>position = (140, 140)\<rparr>, score = 0, game_over = False\<rparr>"
  have "spawn_loop [(320, 240)] \<lparr>position = sample ?r 0\<rparr> (after 2 ?r)
      = Some (\<lparr>position = (140, 140)\<rparr>, after 4 (after 2 ?r))"
    using spawn_loop_first_free [of "after 2 ?r" 1 "[(320, 240)]" "\<lparr>position = sample ?r 0\<rparr>"]
    by (simp add: sample_eq after_def)
  then have ret: "Game_reset ?g ?r = Some (?g', after 6 ?r)"
    by (simp add: Game_reset_def Apple_init_eq spawn_def Snake_init_eq after_after)
  have far: "sample (after 2 ?r) 1 \<noteq> (320, 240)"
    by (simp add: sample_eq after_def)
  from ret far Game_reset_spec [of ?g ?r ?g' "after 6 ?r" 1]
  show ?thesis by simp
qed

lemma move_Cons:
  assumes "body s = h # t"
  shows "\<exists>s1. move s = Inr s1
     \<and> body s1 = (fst h + fst (direction s) * CELL_SIZE, snd h + snd (direction s) * CELL_SIZE)
           # (if grow s then h # t else butlast (h # t))
     \<and> direction s1 = direction s \<and> \<not> grow s1"
proof -
  obtain hx hy where h: "h = (hx, hy)" by (cases h)
  obtain dx dy where d: "direction s = (dx, dy)" by (cases "direction s")
  show ?thesis by (simp add: move_def assms h d)
qed

lemma move_Inr:
  assumes "move s = Inr s1"
  shows "body s \<noteq> [] \<and> body s1 \<noteq> []
     \<and> set (body s1) \<subseteq> insert (hd (body s1)) (set (body s))
     \<and> direction s1 = direction s \<and> \<not> grow s1"
proof (cases "body s")
  case Nil
  with assms show ?thesis by (simp add: move_def)
next
  case (Cons h t)
  from move_Cons [OF Cons] assms have
    b: "body s1 = (fst h + fst (direction s) * CELL_SIZE, snd h + snd (direction s) * CELL_SIZE)
           # (if grow s then h # t else butlast (h # t))"
    and rest: "direction s1 = direction s \<and> \<not> grow s1" by auto
  have "set (butlast (h # t)) \<subseteq> set (h # t)" by (meson in_set_butlastD subsetI)
  with b have "set (body s1) \<subseteq> insert (hd (body s1)) (set (body s))"
    by (auto simp add: Cons split: if_splits)
  with b rest Cons show ?thesis by simp
qed

lemma check_collision_Cons:
  assumes "body s = h # t"
  shows "check_collision s =
     Inr (fst h < 0 \<or> fst h \<ge> WINDOW_WIDTH \<or> snd h < 0 \<or> snd h \<ge> WINDOW_HEIGHT \<or> h \<in> set t, s)"
  by (auto simp add: check_collision_def assms)

lemma eat_apple_moved:
  assumes "body s1 = h # t"
  shows "eat_apple (g\<lparr>snake := s1\<rparr>) r =
     (if h = position (apple g) then
        (case spawn (Some (h # t)) (apple g) r of
           None \<Rightarrow> None
         | Some (a, r1) \<Rightarrow>
             Some (Inr (g\<lparr>snake := s1\<lparr>grow := True\<rparr>, score := score g + 1, apple := a\<rparr>, r1)))
      else Some (Inr (g\<lparr>snake := s1\<rparr>, r)))"
  by (simp add: eat_apple_def assms Let_def split: option.splits)

lemma update_playing_sound:
  assumes play: "\<not> game_over g" and ret: "update g r = Some (Inr (g', r'))"
  shows "\<exists>s1. move (snake g) = Inr s1
     \<and> body (snake g') = body s1 \<and> direction (snake g') = direction s1
     \<and> (hd (body s1) = position (apple g) \<longrightarrow>
           grow (snake g') \<and> score g' = score g + 1
           \<and> spawn (Some (body s1)) (apple g) r = Some (apple g', r'))
     \<and> (hd (body s1) \<noteq> position (apple g) \<longrightarrow>
           grow (snake g') = grow s1 \<and> score g' = score g \<and> apple g' = apple g \<and> r' = r)
     \<and> check_collision s1 = Inr (game_over g', s1)"
proof -
  from play ret obtain s1 where mv: "move (snake g) = Inr s1"
    by (auto simp add: update_def split: sum.splits)
  from move_Inr [OF mv] obtain h t where b1: "body s1 = h # t"
    by (cases "body s1") auto
  have cc: "check_collision s1 = Inr (fst h < 0 \<or> fst h \<ge> WINDOW_WIDTH \<or> snd h < 0
      \<or> snd h \<ge> WINDOW_HEIGHT \<or> h \<in> set t, s1)"
    by (rule check_collision_Cons [OF b1])
  have ccg: "check_collision (s1\<lparr>grow := True\<rparr>) = Inr (fst h < 0 \<or> fst h \<ge> WINDOW_WIDTH \<or> snd h < 0
      \<or> snd h \<ge> WINDOW_HEIGHT \<or> h \<in> set t, s1\<lparr>grow := True\<rparr>)"
    by (rule check_collision_Cons) (simp add: b1)
  show ?thesis
  proof (cases "h = position (apple g)")
    case True
    with play ret mv b1 obtain a where
      sp: "spawn (Some (h # t)) (apple g) r = Some (a, r')"
      and g': "g' = (g\<lparr>snake := s1\<lparr>grow := True\<rparr>, score := score g + 1, apple := a\<rparr>)
          \<lparr>snake := s1\<lparr>grow := True\<rparr>,
            game_over := (fst h < 0 \<or> fst h \<ge> WINDOW_WIDTH \<or> snd h < 0
              \<or> snd h \<ge> WINDOW_HEIGHT \<or> h \<in> set t)\<rparr>"
      by (auto simp add: update_def eat_apple_moved ccg play split: option.splits if_splits)
    have "move (snake g) = Inr s1
     \<and> body (snake g') = body s1 \<and> direction (snake g') = direction s1
     \<and> (hd (body s1) = position (apple g) \<longrightarrow>
           grow (snake g') \<and> score g' = score g + 1
           \<and> spawn (Some (body s1)) (apple g) r = Some (apple g', r'))
     \<and> (hd (body s1) \<noteq> position (apple g) \<longrightarrow>
           grow (snake g') = grow s1 \<and> score g' = score g \<and> apple g' = apple g \<and> r' = r)
     \<and> check_collision s1 = Inr (game_over g', s1)"
      using sp by (simp add: mv g' b1 True cc play)
    then show ?thesis by (rule exI [of _ s1])
  next
    case False
    with play ret mv b1 have
      g': "g' = g\<lparr>snake := s1,
            game_over := (fst h < 0 \<or> fst h \<ge> WINDOW_WIDTH \<or> snd h < 0
              \<or> snd h \<ge> WINDOW_HEIGHT \<or> h \<in> set t)\<rparr>" and r': "r' = r"
      by (auto simp add: update_def eat_apple_moved cc play split: option.splits if_splits)
    show ?thesis
      by (rule exI [of _ s1]) (simp add: mv g' r' b1 False cc play)
  qed
qed

lemma update_playing_returns:
  assumes play: "\<not> game_over g" and mv: "move (snake g) = Inr s1"
    and free: "hd (body s1) = position (apple g) \<Longrightarrow> \<exists>k. sample r k \<notin> set (body s1)"
  shows "\<exists>g1 r1. update g r = Some (Inr (g1, r1))"
proof -
  from move_Inr [OF mv] obtain h t where b1: "body s1 = h # t"
    by (cases "body s1") auto
  have ccg: "\<exists>hit. check_collision (s1\<lparr>grow := True\<rparr>) = Inr (hit, s1\<lparr>grow := True\<rparr>)"
    using check_collision_Cons [of "s1\<lparr>grow := True\<rparr>" h t] b1 by simp
  have cc: "\<exists>hit. check_collision s1 = Inr (hit, s1)"
    using check_collision_Cons [OF b1] by simp
  show ?thesis
  proof (cases "h = position (apple g)")
    case True
    with free b1 obtain k where "sample r k \<notin> set (body s1)" by auto
    then have "sample r k \<notin> set (case Some (h # t) of None \<Rightarrow> [] | Some b \<Rightarrow> b)"
      using b1 by simp
    from spawn_returns [OF this] obtain a r1 where
      sp: "spawn (Some (h # t)) (apple g) r = Some (a, r1)" by blast
    have "eat_apple (g\<lparr>snake := s1\<rparr>) r =
       Some (Inr (g\<lparr>snake := s1\<lparr>grow := True\<rparr>, score := score g + 1, apple := a\<rparr>, r1))"
      using eat_apple_moved [OF b1, of g r] True sp by simp
    with ccg show ?thesis
      by (auto simp add: update_def play mv)
  next
    case False
    have "eat_apple (g\<lparr>snake := s1\<rparr>) r = Some (Inr (g\<lparr>snake := s1\<rparr>, r))"
      using eat_apple_moved [OF b1, of g r] False by simp
    with cc show ?thesis
      by (auto simp add: update_def play mv)
  qed
qed

lemma spawn_free_sample:
  assumes "spawn (Some occ) a r = Some (a', r')"
  shows "\<exists>k. sample r k \<notin> set occ"
proof -
  from assms have "spawn_loop occ a r = Some (a', r')" by (simp add: spawn_def)
  from spawn_loop_sound [OF this] obtain k where
    "position a' \<notin> set occ" "a' = a\<lparr>position := sample r k\<rparr>" by auto
  then have "sample r k \<notin> set occ" by simp
  then show ?thesis ..
qed

lemma update_playing_returns_iff:
  assumes play: "\<not> game_over g" and mv: "move (snake g) = Inr s1"
  shows "(\<exists>g1 r1. update g r = Some (Inr (g1, r1)))
     \<longleftrightarrow> (hd (body s1) = position (apple g) \<longrightarrow> (\<exists>k. sample r k \<notin> set (body s1)))"
proof
  assume "\<exists>g1 r1. update g r = Some (Inr (g1, r1))"
  then obtain g1 r1 where ret: "update g r = Some (Inr (g1, r1))" by blast
  show "hd (body s1) = position (apple g) \<longrightarrow> (\<exists>k. sample r k \<notin> set (body s1))"
  proof
    assume eat: "hd (body s1) = position (apple g)"
    from update_playing_sound [OF play ret] mv eat
    have "spawn (Some (body s1)) (apple g) r = Some (apple g1, r1)" by auto
    then show "\<exists>k. sample r k \<notin> set (body s1)" by (rule spawn_free_sample)
  qed
next
  assume "hd (body s1) = position (apple g) \<longrightarrow> (\<exists>k. sample r k \<notin> set (body s1))"
  then show "\<exists>g1 r1. update g r = Some (Inr (g1, r1))"
    using update_playing_returns [OF play mv] by blast
qed

lemma update_no_error:
  assumes "body (snake g) \<noteq> []"
  shows "update g r \<noteq> Some (Inl e)"
proof (cases "game_over g")
  case True
  then show ?thesis by (simp add: update_def)
next
  case False
  from assms obtain h0 t0 where "body (snake g) = h0 # t0" by (cases "body (snake g)") auto
  from move_Cons [OF this] obtain s1 where mv: "move (snake g) = Inr s1" by blast
  from move_Inr [OF mv] obtain h t where b1: "body s1 = h # t"
    by (cases "body s1") auto
  have ccg: "\<exists>hit. check_collision (s1\<lparr>grow := True\<rparr>) = Inr (hit, s1\<lparr>grow := True\<rparr>)"
    using check_collision_Cons [of "s1\<lparr>grow := True\<rparr>" h t] b1 by simp
  have cc: "\<exists>hit. check_collision s1 = Inr (hit, s1)"
    using check_collision_Cons [OF b1] by simp
  show ?thesis
  proof (cases "h = position (apple g)")
    case True
    have "eat_apple (g\<lparr>snake := s1\<rparr>) r =
       (case spawn (Some (h # t)) (apple g) r of
           None \<Rightarrow> None
         | Some (a, r1) \<Rightarrow>
             Some (Inr (g\<lparr>snake := s1\<lparr>grow := True\<rparr>, score := score g + 1, apple := a\<rparr>, r1)))"
      using eat_apple_moved [OF b1, of g r] True by simp
    with ccg show ?thesis
      by (auto simp add: update_def False mv split: option.splits if_splits)
  next
    case neq: False
    have "eat_apple (g\<lparr>snake := s1\<rparr>) r = Some (Inr (g\<lparr>snake := s1\<rparr>, r))"
      using eat_apple_moved [OF b1, of g r] neq by simp
    with cc show ?thesis
      by (auto simp add: update_def False mv split: if_splits)
  qed
qed

lemma update_apple_off_snake:
  assumes inv: "apple_off_snake g" and ret: "update g r = Some (Inr (g', r'))"
  shows "apple_off_snake g'"
proof (cases "game_over g")
  case True
  with ret have "g' = g" by (simp add: update_def)
  with inv show ?thesis by simp
next
  case False
  from update_playing_sound [OF False ret] obtain s1 where
    mv: "move (snake g) = Inr s1" and b: "body (snake g') = body s1"
    and eat: "hd (body s1) = position (apple g) \<longrightarrow>
               spawn (Some (body s1)) (apple g) r = Some (apple g', r')"
    and keep: "hd (body s1) \<noteq> position (apple g) \<longrightarrow> apple g' = apple g"
    by blast
  from move_Inr [OF mv] have
    sub: "set (body s1) \<subseteq> insert (hd (body s1)) (set (body (snake g)))" by blast
  show ?thesis
  proof (cases "hd (body s1) = position (apple g)")
    case True
    with eat have "spawn (Some (body s1)) (apple g) r = Some (apple g', r')" by blast
    from spawn_sound [OF this] show ?thesis by (simp add: apple_off_snake_def b)
  next
    case False
    with keep have "apple g' = apple g" by blast
    with False sub inv show ?thesis by (auto simp add: apple_off_snake_def b)
  qed
qed

lemma update_body_nonempty:
  assumes ne: "body (snake g) \<noteq> []" and ret: "update g r = Some (Inr (g', r'))"
  shows "body (snake g') \<noteq> []"
proof (cases "game_over g")
  case True
  with ret have "g' = g" by (simp add: update_def)
  with ne show ?thesis by simp
next
  case False
  from update_playing_sound [OF False ret] obtain s1 where
    "move (snake g) = Inr s1" "body (snake g') = body s1" by blast
  with move_Inr [of "snake g" s1] show ?thesis by simp
qed

lemma steer_Inr:
  "\<exists>g1. steer d g = Inr g1 \<and> body (snake g1) = body (snake g) \<and> apple g1 = apple g"
  by (simp add: steer_def change_direction_def)

lemma handle_events_preserves:
  assumes turn: "\<And>g d g1. P g \<Longrightarrow> steer d g = Inr g1 \<Longrightarrow> P g1"
    and restart: "\<And>g r g1 r1. Game_reset g r = Some (g1, r1) \<Longrightarrow> P g1"
  shows "P g \<Longrightarrow> handle_events evs g r = Some (Inr (running, g', r')) \<Longrightarrow> P g'"
proof (induction evs arbitrary: g r)
  case Nil
  then show ?case by simp
next
  case (Cons ev evs)
  show ?case
  proof (cases ev)
    case QUIT
    with Cons.prems show ?thesis by simp
  next
    case OTHER
    with Cons.prems have "handle_events evs g r = Some (Inr (running, g', r'))" by simp
    from Cons.IH [OF Cons.prems(1) this] show ?thesis .
  next
    case (KEYDOWN k)
    show ?thesis
    proof (cases "game_over g")
      case True
      from Cons.prems(2) KEYDOWN True consider
        (space) g1 r1 where "Game_reset g r = Some (g1, r1)"
          "handle_events evs g1 r1 = Some (Inr (running, g', r'))"
        | (escape) "g' = g"
        | (skip) "handle_events evs g r = Some (Inr (running, g', r'))"
        by (auto split: option.splits if_splits)
      then show ?thesis
      proof cases
        case space
        from Cons.IH [OF restart [OF space(1)] space(2)] show ?thesis .
      next
        case escape
        with Cons.prems(1) show ?thesis by simp
      next
        case skip
        from Cons.IH [OF Cons.prems(1) this] show ?thesis .
      qed
    next
      case False
      from Cons.prems(2) KEYDOWN False consider
        (turn) d g1 where "steer d g = Inr g1"
          "handle_events evs g1 r = Some (Inr (running, g', r'))"
        | (escape) "g' = g"
        | (skip) "handle_events evs g r = Some (Inr (running, g', r'))"
        by (auto split: sum.splits if_splits)
      then show ?thesis
      proof cases
        case turn
        from Cons.IH [OF assms(1) [OF Cons.prems(1) turn(1)] turn(2)] show ?thesis .
      next
        case escape
        with Cons.prems(1) show ?thesis by simp
      next
        case skip
        from Cons.IH [OF Cons.prems(1) this] show ?thesis .
      qed
    qed
  qed
qed

lemma handle_events_no_error: "handle_events evs g r \<noteq> Some (Inl e)"
proof (induction evs arbitrary: g r)
  case Nil
  show ?case by simp
next
  case (Cons ev evs)
  show ?case
  proof (cases ev)
    case QUIT
    then show ?thesis by simp
  next
    case OTHER
    with Cons.IH show ?thesis by simp
  next
    case (KEYDOWN k)
    obtain gu where gu: "steer UP g = Inr gu" using steer_Inr by blast
    obtain gd where gd: "steer DOWN g = Inr gd" using steer_Inr by blast
    obtain gl where gl: "steer LEFT g = Inr gl" using steer_Inr by blast
    obtain gr where gr: "steer RIGHT g = Inr gr" using steer_Inr by blast
    show ?thesis
      using Cons.IH by (simp add: KEYDOWN gu gd gl gr split: option.splits)
  qed
qed

lemma run_preserves:
  assumes tick: "\<And>g r g1 r1. P g \<Longrightarrow> update g r = Some (Inr (g1, r1)) \<Longrightarrow> P g1"
    and events: "\<And>evs g r running g1 r1. P g \<Longrightarrow>
       handle_events evs g r = Some (Inr (running, g1, r1)) \<Longrightarrow> P g1"
  shows "P g \<Longrightarrow> run frames g r = Some (Inr (g', r')) \<Longrightarrow> P g'"
proof (induction frames arbitrary: g r)
  case Nil
  then show ?case by simp
next
  case (Cons evs frames)
  from Cons.prems(2) obtain running g1 r1 where
    fr: "frame evs g r = Some (Inr (running, g1, r1))"
    and rest: "(if running then run frames g1 r1 else Some (Inr (g1, r1))) = Some (Inr (g', r'))"
    by (auto split: option.splits sum.splits)
  from fr obtain g0 r0 where
    he: "handle_events evs g r = Some (Inr (running, g0, r0))"
    and up: "update g0 r0 = Some (Inr (g1, r1))"
    by (auto simp add: frame_def split: option.splits sum.splits)
  from tick [OF events [OF Cons.prems(1) he] up] have p1: "P g1" .
  show ?case
  proof (cases running)
    case True
    with rest have "run frames g1 r1 = Some (Inr (g', r'))" by simp
    from Cons.IH [OF p1 this] show ?thesis .
  next
    case False
    with rest p1 show ?thesis by simp
  qed
qed

lemma steer_body_nonempty: "body (snake g) \<noteq> [] \<Longrightarrow> steer d g = Inr g1 \<Longrightarrow> body (snake g1) \<noteq> []"
  using steer_Inr [of d g] by auto

lemma steer_apple_off_snake: "apple_off_snake g \<Longrightarrow> steer d g = Inr g1 \<Longrightarrow> apple_off_snake g1"
  using steer_Inr [of d g] by (auto simp add: apple_off_snake_def)

lemma Game_reset_body_nonempty: "Game_reset g r = Some (g1, r1) \<Longrightarrow> body (snake g1) \<noteq> []"
  using Game_reset_sound [of g r g1 r1] by (simp add: Snake_init_eq)

lemma Game_reset_apple_off_snake: "Game_reset g r = Some (g1, r1) \<Longrightarrow> apple_off_snake g1"
  using Game_reset_sound [of g r g1 r1] by (simp add: apple_off_snake_def)

lemma handle_events_body_nonempty:
  "body (snake g) \<noteq> [] \<Longrightarrow> handle_events evs g r = Some (Inr (running, g', r'))
    \<Longrightarrow> body (snake g') \<noteq> []"
proof (rule handle_events_preserves [where P = "\<lambda>g. body (snake g) \<noteq> []"])
  show "body (snake g1) \<noteq> []" if "body (snake g) \<noteq> []" "steer d g = Inr g1" for g d g1
    using that by (rule steer_body_nonempty)
  show "body (snake g1) \<noteq> []" if "Game_reset g r = Some (g1, r1)" for g r g1 r1
    using that by (rule Game_reset_body_nonempty)
qed

lemma handle_events_apple_off_snake:
  "apple_off_snake g \<Longrightarrow> handle_events evs g r = Some (Inr (running, g', r'))
    \<Longrightarrow> apple_off_snake g'"
proof (rule handle_events_preserves [where P = apple_off_snake])
  show "apple_off_snake g1" if "apple_off_snake g" "steer d g = Inr g1" for g d g1
    using that by (rule steer_apple_off_snake)
  show "apple_off_snake g1" if "Game_reset g r = Some (g1, r1)" for g r g1 r1
    using that by (rule Game_reset_apple_off_snake)
qed

lemma run_no_error:
  "body (snake g) \<noteq> [] \<Longrightarrow> run frames g r \<noteq> Some (Inl e)"
proof (induction frames arbitrary: g r)
  case Nil
  show ?case by simp
next
  case (Cons evs frames)
  show ?case
  proof
    assume bad: "run (evs # frames) g r = Some (Inl e)"
    have he: "handle_events evs g r \<noteq> Some (Inl e')" for e' by (rule handle_events_no_error)
    show False
    proof (cases "handle_events evs g r")
      case None
      with bad show False by (simp add: frame_def)
    next
      case (Some res)
      with he obtain running g0 r0 where res: "res = Inr (running, g0, r0)"
        by (cases res) auto
      from handle_events_body_nonempty [OF Cons.prems] Some res have
        ne0: "body (snake g0) \<noteq> []" by simp
      have up: "update g0 r0 \<noteq> Some (Inl e')" for e' by (rule update_no_error [OF ne0])
      show False
      proof (cases "update g0 r0")
        case None
        with bad Some res show False by (simp add: frame_def)
      next
        case upd: (Some res1)
        with up obtain g1 r1 where res1: "res1 = Inr (g1, r1)" by (cases res1) auto
        from update_body_nonempty [OF ne0] upd res1 have ne1: "body (snake g1) \<noteq> []" by simp
        from bad Some res upd res1 have "running" "run frames g1 r1 = Some (Inl e)"
          by (auto simp add: frame_def split: if_splits)
        with Cons.IH [OF ne1] show False by simp
      qed
    qed
  qed
qed

text \<open>
  Claim C1. A tick in the Playing state (game-over flag clear) that returns has done this,
  in this order: the snake moved (to \<open>s1\<close>); if the head of the moved snake is the apple's
  position, the growth flag is set, the score is one higher and the apple is the result of
  \<^verbatim>\<open>spawn\<close> on the moved body, so not on it; otherwise growth flag, score, apple and random
  source are as the move left them; and the game-over flag is the verdict of the collision
  check on the moved snake. Both tests read the same head, \<open>hd (body s1)\<close>. On a snake
  with a head the move succeeds, and the tick returns in every case but one: the moved head
  is on the apple and no round of the sampling loop proposes a cell off the moved body. In
  particular a tick that does not eat always returns.
\<close>

theorem update_playing:
  assumes "\<not> game_over g"
  shows "(update g r = Some (Inr (g', r')) \<longrightarrow>
      (\<exists>s1. move (snake g) = Inr s1
         \<and> body (snake g') = body s1 \<and> direction (snake g') = direction s1
         \<and> (hd (body s1) = position (apple g) \<longrightarrow>
               grow (snake g') \<and> score g' = score g + 1
               \<and> spawn (Some (body s1)) (apple g) r = Some (apple g', r')
               \<and> position (apple g') \<notin> set (body s1))
         \<and> (hd (body s1) \<noteq> position (apple g) \<longrightarrow>
               grow (snake g') = grow s1 \<and> score g' = score g \<and> apple g' = apple g \<and> r' = r)
         \<and> check_collision s1 = Inr (game_over g', s1)))
   \<and> (body (snake g) \<noteq> [] \<longrightarrow>
        (\<exists>s2. move (snake g) = Inr s2
           \<and> ((\<exists>g1 r1. update g r = Some (Inr (g1, r1)))
                \<longleftrightarrow> (hd (body s2) = position (apple g)
                      \<longrightarrow> (\<exists>k. sample r k \<notin> set (body s2))))))"
proof (intro conjI impI)
  assume ret: "update g r = Some (Inr (g', r'))"
  from update_playing_sound [OF assms ret] obtain s1 where
    s1: "move (snake g) = Inr s1
     \<and> body (snake g') = body s1 \<and> direction (snake g') = direction s1
     \<and> (hd (body s1) = position (apple g) \<longrightarrow>
           grow (snake g') \<and> score g' = score g + 1
           \<and> spawn (Some (body s1)) (apple g) r = Some (apple g', r'))
     \<and> (hd (body s1) \<noteq> position (apple g) \<longrightarrow>
           grow (snake g') = grow s1 \<and> score g' = score g \<and> apple g' = apple g \<and> r' = r)
     \<and> check_collision s1 = Inr (game_over g', s1)" by blast
  have "position (apple g') \<notin> set (body s1)" if "hd (body s1) = position (apple g)"
  proof -
    from s1 that have "spawn (Some (body s1)) (apple g) r = Some (apple g', r')" by blast
    from spawn_sound [OF this] show ?thesis by simp
  qed
  with s1 have "move (snake g) = Inr s1
         \<and> body (snake g') = body s1 \<and> direction (snake g') = direction s1
         \<and> (hd (body s1) = position (apple g) \<longrightarrow>
               grow (snake g') \<and> score g' = score g + 1
               \<and> spawn (Some (body s1)) (apple g) r = Some (apple g', r')
               \<and> position (apple g') \<notin> set (body s1))
         \<and> (hd (body s1) \<noteq> position (apple g) \<longrightarrow>
               grow (snake g') = grow s1 \<and> score g' = score g \<and> apple g' = apple g \<and> r' = r)
         \<and> check_collision s1 = Inr (game_over g', s1)" by blast
  then show "\<exists>s1. move (snake g) = Inr s1
         \<and> body (snake g') = body s1 \<and> direction (snake g') = direction s1
         \<and> (hd (body s1) = position (apple g) \<longrightarrow>
               grow (snake g') \<and> score g' = score g + 1
               \<and> spawn (Some (body s1)) (apple g) r = Some (apple g', r')
               \<and> position (apple g') \<notin> set (body s1))
         \<and> (hd (body s1) \<noteq> position (apple g) \<longrightarrow>
               grow (snake g') = grow s1 \<and> score g' = score g \<and> apple g' = apple g \<and> r' = r)
         \<and> check_collision s1 = Inr (game_over g', s1)" by (rule exI [of _ s1])
next
  assume "body (snake g) \<noteq> []"
  then obtain h t where "body (snake g) = h # t" by (cases "body (snake g)") auto
  from move_Cons [OF this] obtain s2 where mv: "move (snake g) = Inr s2" by blast
  from mv update_playing_returns_iff [OF assms mv, of r]
  have "move (snake g) = Inr s2
           \<and> ((\<exists>g1 r1. update g r = Some (Inr (g1, r1)))
                \<longleftrightarrow> (hd (body s2) = position (apple g)
                      \<longrightarrow> (\<exists>k. sample r k \<notin> set (body s2))))" by blast
  then show "\<exists>s2. move (snake g) = Inr s2
           \<and> ((\<exists>g1 r1. update g r = Some (Inr (g1, r1)))
                \<longleftrightarrow> (hd (body s2) = position (apple g)
                      \<longrightarrow> (\<exists>k. sample r k \<notin> set (body s2))))" by (rule exI [of _ s2])
qed

theorem update_playing_witness:
  "\<not> game_over \<lparr>snake = \<lparr>body = [(300, 240), (280, 240)], direction = RIGHT, grow = False\<rparr>,
           apple = \<lparr>position = (320, 240)\<rparr>, score = 3, game_over = False\<rparr>
   \<and> move \<lparr>body = [(300, 240), (280, 240)], direction = RIGHT, grow = False\<rparr>
       = Inr \<lparr>body = [(320, 240), (300, 240)], direction = RIGHT, grow = False\<rparr>
   \<and> sample (\<lambda>n. 5) 0 \<notin> set [(320, 240), (300, 240)]
   \<and> update \<lparr>snake = \<lparr>body = [(300, 240), (280, 240)], direction = RIGHT, grow = False\<rparr>,
           apple = \<lparr>position = (320, 240)\<rparr>, score = 3, game_over = False\<rparr> (\<lambda>n. 5)
     = Some (Inr (\<lparr>snake = \<lparr>body = [(320, 240), (300, 240)], direction = RIGHT, grow = True\<rparr>,
           apple = \<lparr>position = (100, 100)\<rparr>, score = 4, game_over = False\<rparr>, after 2 (\<lambda>n. 5)))
   \<and> spawn (Some [(320, 240), (300, 240)]) \<lparr>position = (320, 240)\<rparr> (\<lambda>n. 5)
       = Some (\<lparr>position = (100, 100)\<rparr>, after 2 (\<lambda>n. 5))
   \<and> check_collision \<lparr>body = [(320, 240), (300, 240)], direction = RIGHT, grow = False\<rparr>
       = Inr (False, \<lparr>body = [(320, 240), (300, 240)], direction = RIGHT, grow = False\<rparr>)
   \<and> \<not> game_over \<lparr>snake = \<lparr>body = [(620, 240), (600, 240)], direction = RIGHT, grow = False\<rparr>,
           apple = \<lparr>position = (320, 240)\<rparr>, score = 1, game_over = False\<rparr>
   \<and> move \<lparr>body = [(620, 240), (600, 240)], direction = RIGHT, grow = False\<rparr>
       = Inr \<lparr>body = [(640, 240), (620, 240)], direction = RIGHT, grow = False\<rparr>
   \<and> update \<lparr>snake = \<lparr>body = [(620, 240), (600, 240)], direction = RIGHT, grow = False\<rparr>,
           apple = \<lparr>position = (320, 240)\<rparr>, score = 1, game_over = False\<rparr> (\<lambda>n. 5)
     = Some (Inr (\<lparr>snake = \<lparr>body = [(640, 240), (620, 240)], direction = RIGHT, grow = False\<rparr>,
           apple = \<lparr>position = (320, 240)\<rparr>, score = 1, game_over = True\<rparr>, \<lambda>n. 5))
   \<and> check_collision \<lparr>body = [(640, 240), (620, 240)], direction = RIGHT, grow = False\<rparr>
       = Inr (True, \<lparr>body = [(640, 240), (620, 240)], direction = RIGHT, grow = False\<rparr>)
   \<and> \<not> game_over \<lparr>snake = \<lparr>body = [(20, 0), (0, 0)], direction = RIGHT, grow = True\<rparr>,
           apple = \<lparr>position = (100, 100)\<rparr>, score = 1, game_over = False\<rparr>
   \<and> body (snake \<lparr>snake = \<lparr>body = [(20, 0), (0, 0)], direction = RIGHT, grow = True\<rparr>,
           apple = \<lparr>position = (100, 100)\<rparr>, score = 1, game_over = False\<rparr>) \<noteq> []
   \<and> move \<lparr>body = [(20, 0), (0, 0)], direction = RIGHT, grow = True\<rparr>
       = Inr \<lparr>body = [(40, 0), (20, 0), (0, 0)], direction = RIGHT, grow = False\<rparr>
   \<and> (\<forall>k. sample (\<lambda>n. 0) k \<in> set [(40, 0), (20, 0), (0, 0)])
   \<and> hd [(40 :: int, 0 :: int), (20, 0), (0, 0)] \<noteq> (100, 100)
   \<and> (\<exists>g1 r1. update \<lparr>snake = \<lparr>body = [(20, 0), (0, 0)], direction = RIGHT, grow = True\<rparr>,
           apple = \<lparr>position = (100, 100)\<rparr>, score = 1, game_over = False\<rparr> (\<lambda>n. 0)
         = Some (Inr (g1, r1)))
   \<and> update \<lparr>snake = \<lparr>body = [(20, 0), (0, 0)], direction = RIGHT, grow = True\<rparr>,
           apple = \<lparr>position = (100, 100)\<rparr>, score = 1, game_over = False\<rparr> (\<lambda>n. 0)
     = Some (Inr (\<lparr>snake = \<lparr>body = [(40, 0), (20, 0), (0, 0)], direction = RIGHT, grow = False\<rparr>,
           apple = \<lparr>position = (100, 100)\<rparr>, score = 1, game_over = False\<rparr>, \<lambda>n. 0))"
proof -
  let ?gE = "\<lparr>snake = \<lparr>body = [(300, 240), (280, 240)], direction = RIGHT, grow = False\<rparr>,
           apple = \<lparr>position = (320, 240)\<rparr>, score = 3, game_over = False\<rparr>"
  let ?gE' = "\<lparr>snake = \<lparr>body = [(320, 240), (300, 240)], direction = RIGHT, grow = True\<rparr>,
           apple = \<lparr>position = (100, 100)\<rparr>, score = 4, game_over = False\<rparr>"
  let ?sE = "\<lparr>body = [(320, 240), (300, 240)], direction = RIGHT, grow = False\<rparr>"
  let ?gW = "\<lparr>snake = \<lparr>body = [(620, 240), (600, 240)], direction = RIGHT, grow = False\<rparr>,
           apple = \<lparr>position = (320, 240)\<rparr>, score = 1, game_over = False\<rparr>"
  let ?gW' = "\<lparr>snake = \<lparr>body = [(640, 240), (620, 240)], direction = RIGHT, grow = False\<rparr>,
           apple = \<lparr>position = (320, 240)\<rparr>, score = 1, game_over = True\<rparr>"
  let ?sW = "\<lparr>body = [(640, 240), (620, 240)], direction = RIGHT, grow = False\<rparr>"
  let ?gN = "\<lparr>snake = \<lparr>body = [(20, 0), (0, 0)], direction = RIGHT, grow = True\<rparr>,
           apple = \<lparr>position = (100, 100)\<rparr>, score = 1, game_over = False\<rparr>"
  let ?gN' = "\<lparr>snake = \<lparr>body = [(40, 0), (20, 0), (0, 0)], direction = RIGHT, grow = False\<rparr>,
           apple = \<lparr>position = (100, 100)\<rparr>, score = 1, game_over = False\<rparr>"
  let ?sN = "\<lparr>body = [(40, 0), (20, 0), (0, 0)], direction = RIGHT, grow = False\<rparr>"
  let ?r = "\<lambda>n::nat. 5::nat"
  let ?z = "\<lambda>n::nat. 0::nat"
  have eat_tick: "update ?gE ?r = Some (Inr (?gE', after 2 ?r))"
    by (simp add: update_def move_def eat_apple_def spawn_def check_collision_def
      spawn_loop_first_free [of _ 0] sample_eq RIGHT_def CELL_SIZE_def WINDOW_WIDTH_def
      WINDOW_HEIGHT_def)
  have wall_tick: "update ?gW ?r = Some (Inr (?gW', ?r))"
    by (simp add: update_def move_def eat_apple_def spawn_def check_collision_def
      RIGHT_def CELL_SIZE_def WINDOW_WIDTH_def WINDOW_HEIGHT_def)
  have plain_tick: "update ?gN ?z = Some (Inr (?gN', ?z))"
    by (simp add: update_def move_def eat_apple_def spawn_def check_collision_def
      RIGHT_def CELL_SIZE_def WINDOW_WIDTH_def WINDOW_HEIGHT_def)
  have mvE: "move (snake ?gE) = Inr ?sE" and mvW: "move (snake ?gW) = Inr ?sW"
    and mvN: "move (snake ?gN) = Inr ?sN"
    by (simp_all add: move_def RIGHT_def CELL_SIZE_def)
  have free: "sample ?r 0 \<notin> set (body ?sE)"
    by (simp add: sample_eq)
  have busy: "\<forall>k. sample ?z k \<in> set (body ?sN)"
    by (simp add: sample_eq)
  have playE: "\<not> game_over ?gE" and playW: "\<not> game_over ?gW" and playN: "\<not> game_over ?gN"
    by simp_all
  from update_playing [OF playE, of ?r ?gE' "after 2 ?r"] eat_tick mvE
  have "spawn (Some [(320, 240), (300, 240)]) \<lparr>position = (320, 240)\<rparr> ?r
       = Some (\<lparr>position = (100, 100)\<rparr>, after 2 ?r)
     \<and> check_collision ?sE = Inr (False, ?sE)"
    by simp
  moreover
  from update_playing [OF playW, of ?r ?gW' ?r] wall_tick mvW
  have "check_collision ?sW = Inr (True, ?sW)"
    by simp
  moreover
  from update_playing [OF playN, of ?z ?gN' ?z] mvN
  have "\<exists>g1 r1. update ?gN ?z = Some (Inr (g1, r1))"
    by simp
  ultimately show ?thesis
    using eat_tick wall_tick plain_tick mvE mvW mvN free busy by simp
qed

lemma main_preserves:
  assumes "\<And>g r g1 r1. Game_reset g r = Some (g1, r1) \<Longrightarrow> P g1"
    and "\<And>g r g1 r1. P g \<Longrightarrow> update g r = Some (Inr (g1, r1)) \<Longrightarrow> P g1"
    and "\<And>evs g r running g1 r1. P g \<Longrightarrow>
       handle_events evs g r = Some (Inr (running, g1, r1)) \<Longrightarrow> P g1"
  shows "main frames r = Some (Inr (g', r')) \<Longrightarrow> P g'"
proof -
  assume ret: "main frames r = Some (Inr (g', r'))"
  then obtain g0 r0 where
    init: "Game_init r = Some (g0, r0)" and rn: "run frames g0 r0 = Some (Inr (g', r'))"
    by (auto simp add: main_def split: option.splits)
  from init assms(1) have "P g0" unfolding Game_init_def by blast
  from run_preserves [of P, OF assms(2) assms(3) this rn] show "P g'" .
qed

lemma main_no_error: "main frames r \<noteq> Some (Inl e)"
proof (cases "Game_init r")
  case None
  then show ?thesis by (simp add: main_def)
next
  case (Some res)
  obtain g0 r0 where res: "res = (g0, r0)" by (cases res)
  from Some res have "body (snake g0) \<noteq> []"
    unfolding Game_init_def by (auto dest: Game_reset_body_nonempty)
  from run_no_error [OF this] Some res show ?thesis by (simp add: main_def)
qed

text \<open>Facts that evaluate a run of the program on given events and random draws.\<close>

lemma after_apply: "after m r n = r (n + m)"
  by (simp add: after_def)

lemmas run_eval = main_def Game_init_def Game_reset_def Apple_init_eq Snake_init_eq frame_def
      steer_def change_direction_def update_def move_def eat_apple_def spawn_def
      check_collision_def spawn_loop_first_free [of _ 0] sample_eq after_apply after_after
      RIGHT_def UP_def LEFT_def DOWN_def CELL_SIZE_def WINDOW_WIDTH_def WINDOW_HEIGHT_def

text \<open>
  Claim C6. The apple is never on the snake between ticks: it is off the snake when
  \<^verbatim>\<open>Game.reset\<close> returns; a returning \<^verbatim>\<open>Game.update\<close> and a returning
  \<^verbatim>\<open>Game.handle_events\<close> (which may steer or restart) keep it off; hence it is off the
  snake in the state after any number of iterations of the main loop, whatever the events
  and the random draws.
\<close>

theorem apple_never_on_snake:
  "(Game_reset g r = Some (g', r') \<longrightarrow> apple_off_snake g')
   \<and> (apple_off_snake g \<and> update g r = Some (Inr (g', r')) \<longrightarrow> apple_off_snake g')
   \<and> (apple_off_snake g \<and> handle_events evs g r = Some (Inr (running, g', r'))
        \<longrightarrow> apple_off_snake g')
   \<and> (main frames r = Some (Inr (g', r')) \<longrightarrow> position (apple g') \<notin> set (body (snake g')))"
proof (intro conjI impI)
  assume "Game_reset g r = Some (g', r')"
  then show "apple_off_snake g'" by (rule Game_reset_apple_off_snake)
next
  assume "apple_off_snake g \<and> update g r = Some (Inr (g', r'))"
  then show "apple_off_snake g'" using update_apple_off_snake by blast
next
  assume "apple_off_snake g \<and> handle_events evs g r = Some (Inr (running, g', r'))"
  then show "apple_off_snake g'" using handle_events_apple_off_snake by blast
next
  assume "main frames r = Some (Inr (g', r'))"
  then have "apple_off_snake g'"
  proof (rule main_preserves [where P = apple_off_snake, rotated 3])
    show "apple_off_snake g1" if "Game_reset g r = Some (g1, r1)" for g r g1 r1
      using that by (rule Game_reset_apple_off_snake)
    show "apple_off_snake g1" if "apple_off_snake g" "update g r = Some (Inr (g1, r1))"
      for g r g1 r1 using that by (rule update_apple_off_snake)
    show "apple_off_snake g1"
      if "apple_off_snake g" "handle_events evs g r = Some (Inr (running, g1, r1))"
      for evs g r running g1 r1 using that by (rule handle_events_apple_off_snake)
  qed
  then show "position (apple g') \<notin> set (body (snake g'))" by (simp add: apple_off_snake_def)
qed

theorem apple_never_on_snake_witness:
  "Game_reset \<lparr>snake = \<lparr>body = [], direction = (0, 0), grow = False\<rparr>,
                 apple = \<lparr>position = (0, 0)\<rparr>, score = 0, game_over = False\<rparr>
      (\<lambda>n. if n < 4 then (if even n then 17 else 12) else 5)
     = Some (\<lparr>snake = \<lparr>body = [(320, 240)], direction = RIGHT, grow = False\<rparr>,
          apple = \<lparr>position = (340, 240)\<rparr>, score = 0, game_over = False\<rparr>,
        after 4 (\<lambda>n. if n < 4 then (if even n then 17 else 12) else 5))
   \<and> apple_off_snake \<lparr>snake = \<lparr>body = [(320, 240)], direction = RIGHT, grow = False\<rparr>,
          apple = \<lparr>position = (340, 240)\<rparr>, score = 0, game_over = False\<rparr>
   \<and> update \<lparr>snake = \<lparr>body = [(320, 240)], direction = RIGHT, grow = False\<rparr>,
          apple = \<lparr>position = (340, 240)\<rparr>, score = 0, game_over = False\<rparr>
        (after 4 (\<lambda>n. if n < 4 then (if even n then 17 else 12) else 5))
     = Some (Inr (\<lparr>snake = \<lparr>body = [(340, 240)], direction = RIGHT, grow = True\<rparr>,
          apple = \<lparr>position = (100, 100)\<rparr>, score = 1, game_over = False\<rparr>,
        after 6 (\<lambda>n. if n < 4 then (if even n then 17 else 12) else 5)))
   \<and> apple_off_snake \<lparr>snake = \<lparr>body = [(340, 240)], direction = RIGHT, grow = True\<rparr>,
          apple = \<lparr>position = (100, 100)\<rparr>, score = 1, game_over = False\<rparr>
   \<and> handle_events [KEYDOWN K_UP]
        \<lparr>snake = \<lparr>body = [(340, 240)], direction = RIGHT, grow = True\<rparr>,
          apple = \<lparr>position = (100, 100)\<rparr>, score = 1, game_over = False\<rparr>
        (after 6 (\<lambda>n. if n < 4 then (if even n then 17 else 12) else 5))
     = Some (Inr (True, \<lparr>snake = \<lparr>body = [(340, 240)], direction = UP, grow = True\<rparr>,
          apple = \<lparr>position = (100, 100)\<rparr>, score = 1, game_over = False\<rparr>,
        after 6 (\<lambda>n. if n < 4 then (if even n then 17 else 12) else 5)))
   \<and> apple_off_snake \<lparr>snake = \<lparr>body = [(340, 240)], direction = UP, grow = True\<rparr>,
          apple = \<lparr>position = (100, 100)\<rparr>, score = 1, game_over = False\<rparr>
   \<and> main [[], [KEYDOWN K_UP]] (\<lambda>n. if n < 4 then (if even n then 17 else 12) else 5)
     = Some (Inr (\<lparr>snake = \<lparr>body = [(340, 220), (340, 240)], direction = UP, grow = False\<rparr>,
          apple = \<lparr>position = (100, 100)\<rparr>, score = 1, game_over = False\<rparr>,
        after 6 (\<lambda>n. if n < 4 then (if even n then 17 else 12) else 5)))
   \<and> position (apple \<lparr>snake = \<lparr>body = [(340, 220), (340, 240)], direction = UP, grow = False\<rparr>,
          apple = \<lparr>position = (100, 100)\<rparr>, score = 1, game_over = False\<rparr>)
       \<notin> set (body (snake \<lparr>snake = \<lparr>body = [(340, 220), (340, 240)], direction = UP, grow = False\<rparr>,
          apple = \<lparr>position = (100, 100)\<rparr>, score = 1, game_over = False\<rparr>))"
proof -
  let ?r = "\<lambda>n::nat. if n < 4 then (if even n then 17 else 12) else (5::nat)"
  let ?gX = "\<lparr>snake = \<lparr>body = [], direction = (0, 0), grow = False\<rparr>,
                 apple = \<lparr>position = (0, 0)\<rparr>, score = 0, game_over = False\<rparr>"
  let ?g0 = "\<lparr>snake = \<lparr>body = [(320, 240)], direction = RIGHT, grow = False\<rparr>,
          apple = \<lparr>position = (340, 240)\<rparr>, score = 0, game_over = False\<rparr>"
  let ?g1 = "\<lparr>snake = \<lparr>body = [(340, 240)], direction = RIGHT, grow = True\<rparr>,
          apple = \<lparr>position = (100, 100)\<rparr>, score = 1, game_over = False\<rparr>"
  let ?g1' = "\<lparr>snake = \<lparr>body = [(340, 240)], direction = UP, grow = True\<rparr>,
          apple = \<lparr>position = (100, 100)\<rparr>, score = 1, game_over = False\<rparr>"
  let ?g2 = "\<lparr>snake = \<lparr>body = [(340, 220), (340, 240)], direction = UP, grow = False\<rparr>,
          apple = \<lparr>position = (100, 100)\<rparr>, score = 1, game_over = False\<rparr>"
  have reset: "Game_reset ?gX ?r = Some (?g0, after 4 ?r)"
    by (simp add: run_eval)
  have tick: "update ?g0 (after 4 ?r) = Some (Inr (?g1, after 6 ?r))"
    by (simp add: run_eval)
  have keys: "handle_events [KEYDOWN K_UP] ?g1 (after 6 ?r) = Some (Inr (True, ?g1', after 6 ?r))"
    by (simp add: run_eval)
  have whole: "main [[], [KEYDOWN K_UP]] ?r = Some (Inr (?g2, after 6 ?r))"
    by (simp add: run_eval)
  from reset apple_never_on_snake [where g = ?gX and r = ?r and g' = ?g0 and r' = "after 4 ?r"]
  have p0: "apple_off_snake ?g0" by blast
  from p0 tick
    apple_never_on_snake [where g = ?g0 and r = "after 4 ?r" and g' = ?g1 and r' = "after 6 ?r"]
  have p1: "apple_off_snake ?g1" by blast
  from p1 keys
    apple_never_on_snake [where g = ?g1 and r = "after 6 ?r" and g' = ?g1' and r' = "after 6 ?r"
      and evs = "[KEYDOWN K_UP]" and running = True]
  have p2: "apple_off_snake ?g1'" by blast
  from whole
    apple_never_on_snake [where frames = "[[], [KEYDOWN K_UP]]" and r = ?r and g' = ?g2
      and r' = "after 6 ?r"]
  have p3: "position (apple ?g2) \<notin> set (body (snake ?g2))" by blast
  from reset tick keys whole p0 p1 p2 p3 show ?thesis by blast
qed

text \<open>
  Claim C10, with totality stated as far as it holds. The snake's body is non-empty after
  \<^verbatim>\<open>reset\<close>; on a non-empty body \<^verbatim>\<open>move\<close>, \<^verbatim>\<open>change_direction\<close> and
  \<^verbatim>\<open>check_collision\<close> always return and leave it non-empty; \<^verbatim>\<open>update\<close> and
  \<^verbatim>\<open>handle_events\<close> never raise and return a game whose snake is non-empty. So no run
  of the program raises \<open>IndexError\<close> at \<^verbatim>\<open>body[0]\<close>. \<^verbatim>\<open>update\<close> itself returns
  on every tick of a finished game, on every tick that does not eat the apple, and on an
  eating tick exactly when some round of the sampling loop of \<^verbatim>\<open>Apple.spawn\<close> proposes a
  cell off the moved body: the only ticks that do not return are those that eat the apple
  while that loop finds no free cell.
\<close>

theorem body_never_empty:
  "(Game_reset g r = Some (g', r') \<longrightarrow> body (snake g') \<noteq> [])
   \<and> (body s \<noteq> [] \<longrightarrow>
        (\<exists>s'. move s = Inr s' \<and> body s' \<noteq> [])
        \<and> (\<exists>s'. change_direction d s = Inr s' \<and> body s' \<noteq> [])
        \<and> (\<exists>hit. check_collision s = Inr (hit, s)))
   \<and> (body (snake g) \<noteq> [] \<longrightarrow>
        update g r \<noteq> Some (Inl e)
        \<and> (update g r = Some (Inr (g', r')) \<longrightarrow> body (snake g') \<noteq> [])
        \<and> (\<exists>s1. move (snake g) = Inr s1
              \<and> ((\<exists>g1 r1. update g r = Some (Inr (g1, r1)))
                   \<longleftrightarrow> (game_over g \<or> hd (body s1) \<noteq> position (apple g)
                         \<or> (\<exists>k. sample r k \<notin> set (body s1)))))
        \<and> handle_events evs g r \<noteq> Some (Inl e)
        \<and> (handle_events evs g r = Some (Inr (running, g', r')) \<longrightarrow> body (snake g') \<noteq> []))
   \<and> main frames r \<noteq> Some (Inl e)
   \<and> (main frames r = Some (Inr (g', r')) \<longrightarrow> body (snake g') \<noteq> [])"
proof -
  have a: "Game_reset g r = Some (g', r') \<longrightarrow> body (snake g') \<noteq> []"
    using Game_reset_body_nonempty by blast
  have b: "body s \<noteq> [] \<longrightarrow>
        (\<exists>s'. move s = Inr s' \<and> body s' \<noteq> [])
        \<and> (\<exists>s'. change_direction d s = Inr s' \<and> body s' \<noteq> [])
        \<and> (\<exists>hit. check_collision s = Inr (hit, s))"
  proof
    assume "body s \<noteq> []"
    then obtain h t where b: "body s = h # t" by (cases "body s") auto
    from move_Cons [OF b] obtain s' where "move s = Inr s'" by blast
    with move_Inr [of s s'] have "\<exists>s'. move s = Inr s' \<and> body s' \<noteq> []" by blast
    moreover have "\<exists>s'. change_direction d s = Inr s' \<and> body s' \<noteq> []"
      using b by (simp add: change_direction_def)
    moreover have "\<exists>hit. check_collision s = Inr (hit, s)"
      using check_collision_Cons [OF b] by simp
    ultimately show "(\<exists>s'. move s = Inr s' \<and> body s' \<noteq> [])
        \<and> (\<exists>s'. change_direction d s = Inr s' \<and> body s' \<noteq> [])
        \<and> (\<exists>hit. check_collision s = Inr (hit, s))" by blast
  qed
  have c: "body (snake g) \<noteq> [] \<longrightarrow>
        update g r \<noteq> Some (Inl e)
        \<and> (update g r = Some (Inr (g', r')) \<longrightarrow> body (snake g') \<noteq> [])
        \<and> (\<exists>s1. move (snake g) = Inr s1
              \<and> ((\<exists>g1 r1. update g r = Some (Inr (g1, r1)))
                   \<longleftrightarrow> (game_over g \<or> hd (body s1) \<noteq> position (apple g)
                         \<or> (\<exists>k. sample r k \<notin> set (body s1)))))
        \<and> handle_events evs g r \<noteq> Some (Inl e)
        \<and> (handle_events evs g r = Some (Inr (running, g', r')) \<longrightarrow> body (snake g') \<noteq> [])"
  proof
    assume ne: "body (snake g) \<noteq> []"
    then obtain h t where b: "body (snake g) = h # t" by (cases "body (snake g)") auto
    from move_Cons [OF b] obtain s1 where mv: "move (snake g) = Inr s1" by blast
    have ret: "(\<exists>g1 r1. update g r = Some (Inr (g1, r1)))
        \<longleftrightarrow> (game_over g \<or> hd (body s1) \<noteq> position (apple g)
              \<or> (\<exists>k. sample r k \<notin> set (body s1)))"
    proof (cases "game_over g")
      case True
      then show ?thesis by (simp add: update_def)
    next
      case False
      with update_playing_returns_iff [OF False mv, of r] show ?thesis by blast
    qed
    have c1: "update g r \<noteq> Some (Inl e)" by (rule update_no_error [OF ne])
    have c2: "update g r = Some (Inr (g', r')) \<longrightarrow> body (snake g') \<noteq> []"
      using update_body_nonempty [OF ne] by blast
    from mv ret have "move (snake g) = Inr s1
              \<and> ((\<exists>g1 r1. update g r = Some (Inr (g1, r1)))
                   \<longleftrightarrow> (game_over g \<or> hd (body s1) \<noteq> position (apple g)
                         \<or> (\<exists>k. sample r k \<notin> set (body s1))))" by (rule conjI)
    then have c3: "\<exists>s1. move (snake g) = Inr s1
              \<and> ((\<exists>g1 r1. update g r = Some (Inr (g1, r1)))
                   \<longleftrightarrow> (game_over g \<or> hd (body s1) \<noteq> position (apple g)
                         \<or> (\<exists>k. sample r k \<notin> set (body s1))))" by (rule exI [of _ s1])
    have c4: "handle_events evs g r \<noteq> Some (Inl e)" by (rule handle_events_no_error)
    have c5: "handle_events evs g r = Some (Inr (running, g', r')) \<longrightarrow> body (snake g') \<noteq> []"
      using handle_events_body_nonempty [OF ne] by blast
    from c1 c2 c3 c4 c5 show "update g r \<noteq> Some (Inl e)
        \<and> (update g r = Some (Inr (g', r')) \<longrightarrow> body (snake g') \<noteq> [])
        \<and> (\<exists>s1. move (snake g) = Inr s1
              \<and> ((\<exists>g1 r1. update g r = Some (Inr (g1, r1)))
                   \<longleftrightarrow> (game_over g \<or> hd (body s1) \<noteq> position (apple g)
                         \<or> (\<exists>k. sample r k \<notin> set (body s1)))))
        \<and> handle_events evs g r \<noteq> Some (Inl e)
        \<and> (handle_events evs g r = Some (Inr (running, g', r')) \<longrightarrow> body (snake g') \<noteq> [])"
      by blast
  qed
  have d: "main frames r \<noteq> Some (Inl e)" by (rule main_no_error)
  have e: "main frames r = Some (Inr (g', r')) \<longrightarrow> body (snake g') \<noteq> []"
  proof
    assume "main frames r = Some (Inr (g', r'))"
    then show "body (snake g') \<noteq> []"
    proof (rule main_preserves [where P = "\<lambda>g. body (snake g) \<noteq> []", rotated 3])
      show "body (snake g1) \<noteq> []" if "Game_reset g r = Some (g1, r1)" for g r g1 r1
        using that by (rule Game_reset_body_nonempty)
      show "body (snake g1) \<noteq> []" if "body (snake g) \<noteq> []" "update g r = Some (Inr (g1, r1))"
        for g r g1 r1 using that by (rule update_body_nonempty)
      show "body (snake g1) \<noteq> []"
        if "body (snake g) \<noteq> []" "handle_events evs g r = Some (Inr (running, g1, r1))"
        for evs g r running g1 r1 using that by (rule handle_events_body_nonempty)
    qed
  qed
  from a b c d e show ?thesis by blast
qed

theorem body_never_empty_witness:
  "Game_reset \<lparr>snake = \<lparr>body = [], direction = (0, 0), grow = False\<rparr>,
                 apple = \<lparr>position = (0, 0)\<rparr>, score = 0, game_over = False\<rparr>
      (\<lambda>n. if n < 4 then (if even n then 17 else 12) else 5)
     = Some (\<lparr>snake = \<lparr>body = [(320, 240)], direction = RIGHT, grow = False\<rparr>,
          apple = \<lparr>position = (340, 240)\<rparr>, score = 0, game_over = False\<rparr>,
        after 4 (\<lambda>n. if n < 4 then (if even n then 17 else 12) else 5))
   \<and> body \<lparr>body = [(320, 240)], direction = RIGHT, grow = False\<rparr> \<noteq> []
   \<and> move \<lparr>body = [(320, 240)], direction = RIGHT, grow = False\<rparr>
       = Inr \<lparr>body = [(340, 240)], direction = RIGHT, grow = False\<rparr>
   \<and> change_direction UP \<lparr>body = [(320, 240)], direction = RIGHT, grow = False\<rparr>
       = Inr \<lparr>body = [(320, 240)], direction = UP, grow = False\<rparr>
   \<and> check_collision \<lparr>body = [(320, 240)], direction = RIGHT, grow = False\<rparr>
       = Inr (False, \<lparr>body = [(320, 240)], direction = RIGHT, grow = False\<rparr>)
   \<and> sample (after 4 (\<lambda>n. if n < 4 then (if even n then 17 else 12) else 5)) 0
       \<notin> set (body \<lparr>body = [(340, 240)], direction = RIGHT, grow = False\<rparr>)
   \<and> update \<lparr>snake = \<lparr>body = [(320, 240)], direction = RIGHT, grow = False\<rparr>,
          apple = \<lparr>position = (340, 240)\<rparr>, score = 0, game_over = False\<rparr>
        (after 4 (\<lambda>n. if n < 4 then (if even n then 17 else 12) else 5))
     = Some (Inr (\<lparr>snake = \<lparr>body = [(340, 240)], direction = RIGHT, grow = True\<rparr>,
          apple = \<lparr>position = (100, 100)\<rparr>, score = 1, game_over = False\<rparr>,
        after 6 (\<lambda>n. if n < 4 then (if even n then 17 else 12) else 5)))
   \<and> body (snake \<lparr>snake = \<lparr>body = [(340, 240)], direction = RIGHT, grow = True\<rparr>,
          apple = \<lparr>position = (100, 100)\<rparr>, score = 1, game_over = False\<rparr>) \<noteq> []
   \<and> main [[], [KEYDOWN K_UP]] (\<lambda>n. if n < 4 then (if even n then 17 else 12) else 5)
     = Some (Inr (\<lparr>snake = \<lparr>body = [(340, 220), (340, 240)], direction = UP, grow = False\<rparr>,
          apple = \<lparr>position = (100, 100)\<rparr>, score = 1, game_over = False\<rparr>,
        after 6 (\<lambda>n. if n < 4 then (if even n then 17 else 12) else 5)))
   \<and> main [[], [KEYDOWN K_UP]] (\<lambda>n. if n < 4 then (if even n then 17 else 12) else 5)
       \<noteq> Some (Inl IndexError)
   \<and> body (snake \<lparr>snake = \<lparr>body = [(340, 220), (340, 240)], direction = UP, grow = False\<rparr>,
          apple = \<lparr>position = (100, 100)\<rparr>, score = 1, game_over = False\<rparr>) \<noteq> []
   \<and> body (snake \<lparr>snake = \<lparr>body = [(20, 0), (0, 0)], direction = RIGHT, grow = True\<rparr>,
          apple = \<lparr>position = (100, 100)\<rparr>, score = 1, game_over = False\<rparr>) \<noteq> []
   \<and> move \<lparr>body = [(20, 0), (0, 0)], direction = RIGHT, grow = True\<rparr>
       = Inr \<lparr>body = [(40, 0), (20, 0), (0, 0)], direction = RIGHT, grow = False\<rparr>
   \<and> (\<forall>k. sample (\<lambda>n. 0) k \<in> set [(40, 0), (20, 0), (0, 0)])
   \<and> hd [(40 :: int, 0 :: int), (20, 0), (0, 0)] \<noteq> (100, 100)
   \<and> (\<exists>g1 r1. update \<lparr>snake = \<lparr>body = [(20, 0), (0, 0)], direction = RIGHT, grow = True\<rparr>,
          apple = \<lparr>position = (100, 100)\<rparr>, score = 1, game_over = False\<rparr> (\<lambda>n. 0)
        = Some (Inr (g1, r1)))"
proof -
  let ?gN = "\<lparr>snake = \<lparr>body = [(20, 0), (0, 0)], direction = RIGHT, grow = True\<rparr>,
          apple = \<lparr>position = (100, 100)\<rparr>, score = 1, game_over = False\<rparr>"
  let ?sN = "\<lparr>body = [(40, 0), (20, 0), (0, 0)], direction = RIGHT, grow = False\<rparr>"
  let ?z = "\<lambda>n::nat. 0::nat"
  have neN: "body (snake ?gN) \<noteq> []" by simp
  have mvN: "move (snake ?gN) = Inr ?sN" by (simp add: move_def RIGHT_def CELL_SIZE_def)
  have busy: "\<forall>k. sample ?z k \<in> set (body ?sN)" by (simp add: sample_eq)
  from neN mvN body_never_empty [where g = ?gN and r = ?z]
  have plain: "\<exists>g1 r1. update ?gN ?z = Some (Inr (g1, r1))" by simp
  let ?r = "\<lambda>n::nat. if n < 4 then (if even n then 17 else 12) else (5::nat)"
  let ?gX = "\<lparr>snake = \<lparr>body = [], direction = (0, 0), grow = False\<rparr>,
                 apple = \<lparr>position = (0, 0)\<rparr>, score = 0, game_over = False\<rparr>"
  let ?s0 = "\<lparr>body = [(320, 240)], direction = RIGHT, grow = False\<rparr>"
  let ?g0 = "\<lparr>snake = ?s0, apple = \<lparr>position = (340, 240)\<rparr>, score = 0, game_over = False\<rparr>"
  let ?g1 = "\<lparr>snake = \<lparr>body = [(340, 240)], direction = RIGHT, grow = True\<rparr>,
          apple = \<lparr>position = (100, 100)\<rparr>, score = 1, game_over = False\<rparr>"
  let ?g2 = "\<lparr>snake = \<lparr>body = [(340, 220), (340, 240)], direction = UP, grow = False\<rparr>,
          apple = \<lparr>position = (100, 100)\<rparr>, score = 1, game_over = False\<rparr>"
  have reset: "Game_reset ?gX ?r = Some (?g0, after 4 ?r)"
    by (simp add: run_eval)
  have ne: "body ?s0 \<noteq> []" "body (snake ?g0) \<noteq> []" by simp_all
  have mv: "move ?s0 = Inr \<lparr>body = [(340, 240)], direction = RIGHT, grow = False\<rparr>"
    by (simp add: run_eval)
  have turn: "change_direction UP ?s0 = Inr \<lparr>body = [(320, 240)], direction = UP, grow = False\<rparr>"
    by (simp add: run_eval)
  have free: "sample (after 4 ?r) 0
       \<notin> set (body \<lparr>body = [(340, 240)], direction = RIGHT, grow = False\<rparr>)"
    by (simp add: run_eval)
  have tick: "update ?g0 (after 4 ?r) = Some (Inr (?g1, after 6 ?r))"
    by (simp add: run_eval)
  have whole: "main [[], [KEYDOWN K_UP]] ?r = Some (Inr (?g2, after 6 ?r))"
    by (simp add: run_eval)
  from reset body_never_empty [where g = ?gX and r = ?r and g' = ?g0 and r' = "after 4 ?r"]
  have p0: "body (snake ?g0) \<noteq> []" by blast
  from ne body_never_empty [where s = ?s0 and d = UP]
  have "\<exists>hit. check_collision ?s0 = Inr (hit, ?s0)" by blast
  then have cc: "check_collision ?s0 = Inr (False, ?s0)"
    by (simp add: run_eval)
  from ne tick
    body_never_empty [where g = ?g0 and r = "after 4 ?r" and g' = ?g1 and r' = "after 6 ?r"]
  have p1: "body (snake ?g1) \<noteq> []" by blast
  from whole
    body_never_empty [where frames = "[[], [KEYDOWN K_UP]]" and r = ?r and g' = ?g2
      and r' = "after 6 ?r" and e = IndexError]
  have p2: "main [[], [KEYDOWN K_UP]] ?r \<noteq> Some (Inl IndexError)"
    and p3: "body (snake ?g2) \<noteq> []" by blast+
  from reset mv turn cc free tick whole p1 p2 p3 mvN busy plain show ?thesis by simp
qed

text \<open>
  Claim C5, evaluated on the program. The snake starts at \<open>(320, 240)\<close> heading
  \<open>RIGHT\<close>. The first tick moves it with heading \<open>RIGHT\<close> to \<open>(340, 240)\<close>. The next
  call of \<^verbatim>\<open>handle_events\<close> receives two key presses, Up then Left: Up is accepted (it
  is not the opposite of \<open>RIGHT\<close>), then Left is accepted (it is not the opposite of
  \<open>UP\<close>). The second tick therefore moves with heading \<open>LEFT\<close>, the exact opposite of
  the heading of the move before it, back to \<open>(320, 240)\<close>. The same two keys end the game
  of a snake of length three: its head moves onto its own second segment.
\<close>

theorem reversal_within_one_frame:
  "Game_init (\<lambda>n. 5)
     = Some (\<lparr>snake = \<lparr>body = [(320, 240)], direction = RIGHT, grow = False\<rparr>,
          apple = \<lparr>position = (100, 100)\<rparr>, score = 0, game_over = False\<rparr>, after 4 (\<lambda>n. 5))
   \<and> update \<lparr>snake = \<lparr>body = [(320, 240)], direction = RIGHT, grow = False\<rparr>,
          apple = \<lparr>position = (100, 100)\<rparr>, score = 0, game_over = False\<rparr> (after 4 (\<lambda>n. 5))
     = Some (Inr (\<lparr>snake = \<lparr>body = [(340, 240)], direction = RIGHT, grow = False\<rparr>,
          apple = \<lparr>position = (100, 100)\<rparr>, score = 0, game_over = False\<rparr>, after 4 (\<lambda>n. 5)))
   \<and> handle_events [KEYDOWN K_UP, KEYDOWN K_LEFT]
        \<lparr>snake = \<lparr>body = [(340, 240)], direction = RIGHT, grow = False\<rparr>,
          apple = \<lparr>position = (100, 100)\<rparr>, score = 0, game_over = False\<rparr> (after 4 (\<lambda>n. 5))
     = Some (Inr (True, \<lparr>snake = \<lparr>body = [(340, 240)], direction = LEFT, grow = False\<rparr>,
          apple = \<lparr>position = (100, 100)\<rparr>, score = 0, game_over = False\<rparr>, after 4 (\<lambda>n. 5)))
   \<and> LEFT = (- fst RIGHT, - snd RIGHT)
   \<and> update \<lparr>snake = \<lparr>body = [(340, 240)], direction = LEFT, grow = False\<rparr>,
          apple = \<lparr>position = (100, 100)\<rparr>, score = 0, game_over = False\<rparr> (after 4 (\<lambda>n. 5))
     = Some (Inr (\<lparr>snake = \<lparr>body = [(320, 240)], direction = LEFT, grow = False\<rparr>,
          apple = \<lparr>position = (100, 100)\<rparr>, score = 0, game_over = False\<rparr>, after 4 (\<lambda>n. 5)))
   \<and> main [[], [KEYDOWN K_UP, KEYDOWN K_LEFT]] (\<lambda>n. 5)
     = Some (Inr (\<lparr>snake = \<lparr>body = [(320, 240)], direction = LEFT, grow = False\<rparr>,
          apple = \<lparr>position = (100, 100)\<rparr>, score = 0, game_over = False\<rparr>, after 4 (\<lambda>n. 5)))
   \<and> frame [KEYDOWN K_UP, KEYDOWN K_LEFT]
        \<lparr>snake = \<lparr>body = [(340, 240), (320, 240), (300, 240)], direction = RIGHT, grow = False\<rparr>,
          apple = \<lparr>position = (100, 100)\<rparr>, score = 2, game_over = False\<rparr> (\<lambda>n. 5)
     = Some (Inr (True,
        \<lparr>snake = \<lparr>body = [(320, 240), (340, 240), (320, 240)], direction = LEFT, grow = False\<rparr>,
          apple = \<lparr>position = (100, 100)\<rparr>, score = 2, game_over = True\<rparr>, \<lambda>n. 5))"
  by (simp add: run_eval)

text \<open>
  \<^verbatim>\<open>update\<close> is not total (claim C10 as first stated). In the state \<open>endgame\<close> the body is
  non-empty and the game is not over. The tick moves the head onto the apple at the origin
  and keeps the tail, so the body now covers all 768 cells of the board; the respawn loop
  then rejects every position it draws, whatever the random draws are, and never ends.
\<close>

lemma length_board_row: "length (board_row j) = 32"
  by (simp add: board_row_def)

lemma length_serpentine: "length serpentine = 768"
proof -
  have "length serpentine = sum_list (map (\<lambda>j. 32) [0..23::int])"
    by (simp only: serpentine_def length_concat map_map comp_def length_board_row)
  also have "\<dots> = 768" by (simp only: sum_list_triv length_upto) simp
  finally show ?thesis .
qed

lemma serpentine_split:
  "serpentine = (0, 0) # (20, 0)
      # map (\<lambda>i. (i * 20, 0)) [2..31] @ concat (map board_row [1..23])"
proof -
  have rows: "[0..23] = 0 # [1..23::int]" by (subst upto_rec1) simp_all
  have cols: "[0..31] = 0 # 1 # [2..31::int]"
    by (subst upto_rec1, simp, subst upto_rec1, simp, simp)
  have "board_row 0 = (0, 0) # (20, 0) # map (\<lambda>i. (i * 20, 0)) [2..31]"
    unfolding board_row_def CELL_SIZE_def by (simp only: even_zero if_True cols) simp
  then show ?thesis
    unfolding serpentine_def by (simp only: rows list.map concat.simps) simp
qed

lemma origin_not_in_tail: "(0, 0) \<notin> set (tl serpentine)"
proof -
  have row: "(0, 0) \<notin> set (board_row j)" if "1 \<le> j" for j
    using that by (cases "even j") (auto simp add: board_row_def CELL_SIZE_def)
  have "(0::int, 0::int) \<notin> set (map (\<lambda>i. (i * 20, 0)) [2..31])" by auto
  moreover have "(0, 0) \<notin> set (concat (map board_row [1..23]))"
    using row by auto
  ultimately show ?thesis by (subst serpentine_split) simp
qed

lemma spawn_loop_None:
  assumes "\<forall>k. sample r k \<in> set occ"
  shows "spawn_loop occ a r = None"
proof (cases "spawn_loop occ a r")
  case None
  then show ?thesis .
next
  case (Some y)
  from spawn_loop_sound [OF Some] obtain k where
    "position (fst y) \<notin> set occ" "fst y = a\<lparr>position := sample r k\<rparr>" by blast
  then have "sample r k \<notin> set occ" by simp
  with assms show ?thesis by blast
qed

lemma set_board_row: "set (board_row j) = (\<lambda>i. (i * 20, j * 20)) ` {0..31}"
  by (cases "even j")
    (simp_all only: board_row_def CELL_SIZE_def set_map set_rev set_upto if_True if_False)

lemma set_serpentine: "set serpentine = (\<Union>j\<in>{0..23}. (\<lambda>i. (i * 20, j * 20)) ` {0..31})"
  unfolding serpentine_def
  by (simp only: set_concat set_map set_upto set_board_row image_image)

lemma on_board_serpentine:
  assumes "on_board c"
  shows "c \<in> set serpentine"
proof -
  obtain x y where c: "c = (x, y)" by (cases c)
  from assms c have x: "x mod 20 = 0" "0 \<le> x" "x < 640" and y: "y mod 20 = 0" "0 \<le> y" "y < 480"
    by (simp_all add: on_board_def CELL_SIZE_def WINDOW_WIDTH_def WINDOW_HEIGHT_def)
  have "x = (x div 20) * 20" "y = (y div 20) * 20" using x(1) y(1) by presburger+
  moreover have "x div 20 \<in> {0..31}" "y div 20 \<in> {0..23}" using x y by auto
  ultimately show ?thesis unfolding set_serpentine c by blast
qed

lemma update_None:
  assumes play: "\<not> game_over g" and mv: "move (snake g) = Inr s1"
    and eat: "hd (body s1) = position (apple g)"
    and full: "\<forall>k. sample r k \<in> set (body s1)"
  shows "update g r = None"
proof -
  from move_Inr [OF mv] obtain h t where b1: "body s1 = h # t"
    by (cases "body s1") auto
  from eat b1 have h: "h = position (apple g)" by simp
  have "spawn (Some (h # t)) (apple g) r = None"
    using spawn_loop_None [of r "h # t" "apple g"] full b1 by (simp add: spawn_def)
  then have "eat_apple (g\<lparr>snake := s1\<rparr>) r = None"
    using eat_apple_moved [OF b1, of g r] h by simp
  then show ?thesis by (simp add: update_def play mv)
qed

theorem update_hangs_on_full_board:
  "body (snake endgame) \<noteq> []
   \<and> length (body (snake endgame)) = 767
   \<and> apple_off_snake endgame
   \<and> \<not> game_over endgame
   \<and> check_collision (snake endgame) = Inr (False, snake endgame)
   \<and> move (snake endgame) = Inr \<lparr>body = serpentine, direction = LEFT, grow = False\<rparr>
   \<and> update endgame (\<lambda>n. n) = None"
proof -
  define rest where "rest = map (\<lambda>i. (i * 20, 0)) [2..31] @ concat (map board_row [1..23])"
  have sp: "serpentine = (0, 0) # (20, 0) # rest"
    unfolding rest_def by (rule serpentine_split)
  have b: "body (snake endgame) = (20, 0) # rest"
    by (simp add: endgame_def sp)
  have len: "length (body (snake endgame)) = 767"
    using length_serpentine by (simp add: endgame_def)
  have mv: "move (snake endgame) = Inr \<lparr>body = serpentine, direction = LEFT, grow = False\<rparr>"
    using b by (simp add: move_def endgame_def LEFT_def CELL_SIZE_def sp)
  have off: "apple_off_snake endgame"
    using origin_not_in_tail by (simp add: apple_off_snake_def endgame_def)
  have play: "\<not> game_over endgame" by (simp add: endgame_def)
  have cc: "check_collision (snake endgame) = Inr (False, snake endgame)"
  proof -
    have row: "(20, 0) \<notin> set (board_row j)" if "1 \<le> j" for j
      using that by (cases "even j") (auto simp add: board_row_def CELL_SIZE_def)
    have "(20::int, 0::int) \<notin> set (map (\<lambda>i. (i * 20, 0)) [2..31])" by auto
    moreover have "(20, 0) \<notin> set (concat (map board_row [1..23]))"
      using row by auto
    ultimately have "(20, 0) \<notin> set rest" by (simp add: rest_def)
    then show ?thesis
      using check_collision_Cons [of "snake endgame" "(20, 0)" rest] b
      by (simp add: WINDOW_WIDTH_def WINDOW_HEIGHT_def)
  qed
  have eat: "hd (body \<lparr>body = serpentine, direction = LEFT, grow = False\<rparr>)
      = position (apple endgame)"
    by (simp add: endgame_def sp)
  have full: "\<forall>k. sample (\<lambda>n. n) k \<in> set (body \<lparr>body = serpentine, direction = LEFT, grow = False\<rparr>)"
    by (simp add: on_board_serpentine sample_on_board)
  from update_None [OF play mv eat full] have "update endgame (\<lambda>n. n) = None" .
  with b len mv off play cc show ?thesis by simp
qed

end
